theory Spec2Isabelle
  imports Main "HOL-Library.Monad_Syntax"
begin

section \<open>JavaScript strings, arrays and the two regular expressions\<close>

text \<open>
  A JavaScript string is modelled as a \<^typ>\<open>string\<close>: one \<^typ>\<open>char\<close> per code unit,
  for the code units below 256. Numbers are \<^typ>\<open>int\<close>: every number of the module is
  an index, a length or a count. A \<open>TypeError\<close> thrown by the source (a property read
  on \<open>undefined\<close>) is the value \<open>None\<close> of an option result.
\<close>

definition isSpace :: "char \<Rightarrow> bool" where
  \<comment> \<open>The class \<open>\s\<close>: tab, line feed, vertical tab, form feed, carriage return,
      space and no-break space (the white space and line terminators below 256).\<close>
  "isSpace c = (of_char c \<in> {9, 10, 11, 12, 13, 32, 160 :: nat})"

definition isDigit :: "char \<Rightarrow> bool" where
  "isDigit c = (48 \<le> (of_char c :: nat) \<and> (of_char c :: nat) \<le> 57)"

definition digitValue :: "char \<Rightarrow> nat" where
  "digitValue c = of_char c - 48"

text \<open>\<open>String.prototype.slice(start, end)\<close>: a negative bound counts from the end.\<close>

definition slice :: "string \<Rightarrow> int \<Rightarrow> int \<Rightarrow> string" where
  "slice s start stop =
     (let len = int (length s);
          from = (if start < 0 then max (len + start) 0 else min start len);
          to = (if stop < 0 then max (len + stop) 0 else min stop len)
      in take (nat (to - from)) (drop (nat from) s))"

text \<open>\<open>Array.prototype.join('\n')\<close>.\<close>

fun join :: "string list \<Rightarrow> string" where
  "join [] = []"
| "join [x] = x"
| "join (x # y # ys) = x @ CHR 0x0A # join (y # ys)"

text \<open>\<open>String.prototype.split('\n')\<close>: never empty; the last case cannot occur.\<close>

fun split :: "string \<Rightarrow> string list" where
  "split [] = [[]]"
| "split (c # cs) =
     (if c = CHR 0x0A then [] # split cs
      else (case split cs of l # ls \<Rightarrow> (c # l) # ls | [] \<Rightarrow> [[c]]))"

text \<open>
  The result of a successful \<open>RegExp\<close> match: the text before the match, the matched
  text, the text after it, and the capture groups (\<open>None\<close> is \<open>undefined\<close>).
\<close>

record regExpMatch =
  leftContext :: string
  matched :: string
  rightContext :: string
  captures :: "string option list"

text \<open>
  \<open>GetSubstitution\<close> of ECMAScript: the expansion of the replacement template of
  \<open>String.prototype.replace\<close>. There are no named groups in this module, so \<open>$<\<close> is
  literal text.
\<close>

definition capture :: "string option list \<Rightarrow> nat \<Rightarrow> string \<Rightarrow> string" where
  \<comment> \<open>the text for \<open>$index\<close>, where \<open>ref\<close> is the reference as it is written\<close>
  "capture caps index ref =
     (if 1 \<le> index \<and> index \<le> length caps
      then (case caps ! (index - 1) of None \<Rightarrow> [] | Some s \<Rightarrow> s)
      else ref)"

fun getSubstitution :: "regExpMatch \<Rightarrow> string \<Rightarrow> string" where
  "getSubstitution m [] = []"
| "getSubstitution m [c] = [c]"
| "getSubstitution m (c # d # t) =
     (if c \<noteq> CHR ''$'' then c # getSubstitution m (d # t)
      else if d = CHR ''$'' then CHR ''$'' # getSubstitution m t
      else if d = CHR ''&'' then matched m @ getSubstitution m t
      else if d = CHR 0x60 then leftContext m @ getSubstitution m t
      else if d = CHR 0x27 then rightContext m @ getSubstitution m t
      else if isDigit d then
        (case t of
           e # t' \<Rightarrow>
             if isDigit e \<and> 10 * digitValue d + digitValue e \<le> length (captures m)
             then capture (captures m) (10 * digitValue d + digitValue e) [c, d, e]
                    @ getSubstitution m t'
             else capture (captures m) (digitValue d) [c, d] @ getSubstitution m t
         | [] \<Rightarrow> capture (captures m) (digitValue d) [c, d])
      else c # getSubstitution m (d # t))"

text \<open>
  The regular expression \<open>/\s+$/\<close>: the leftmost position from which the rest of the
  string is a non-empty run of white space.
\<close>

fun execTrailingSpaces :: "string \<Rightarrow> regExpMatch option" where
  "execTrailingSpaces [] = None"
| "execTrailingSpaces (c # cs) =
     (if isSpace c \<and> list_all isSpace cs
      then Some \<lparr>leftContext = [], matched = c # cs, rightContext = [], captures = []\<rparr>
      else (case execTrailingSpaces cs of
              None \<Rightarrow> None
            | Some m \<Rightarrow> Some (m\<lparr>leftContext := c # leftContext m\<rparr>)))"

text \<open>
  The regular expression \<open>/^(\s\s)*(\s)(?=[^\s])/\<close>, which can match at the start of the
  string only. \<open>leadingPairs\<close> is the greedy star with its backtracking: it tries one
  more pair first and falls back to \<open>leadingLast\<close>. Group 1 holds the pair of the last
  iteration of the star (\<open>undefined\<close> when there was none), group 2 the single character.
\<close>

definition leadingLast :: "string option \<Rightarrow> string \<Rightarrow> string \<Rightarrow> regExpMatch option" where
  "leadingLast g1 pre rest =
     (case rest of
        c # d # rest' \<Rightarrow>
          if isSpace c \<and> \<not> isSpace d
          then Some \<lparr>leftContext = [], matched = pre @ [c], rightContext = d # rest',
                     captures = [g1, Some [c]]\<rparr>
          else None
      | _ \<Rightarrow> None)"

fun leadingPairs :: "string option \<Rightarrow> string \<Rightarrow> string \<Rightarrow> regExpMatch option" where
  "leadingPairs g1 pre (c # d # rest) =
     (if isSpace c \<and> isSpace d
      then (case leadingPairs (Some [c, d]) (pre @ [c, d]) rest of
              Some m \<Rightarrow> Some m
            | None \<Rightarrow> leadingLast g1 pre (c # d # rest))
      else leadingLast g1 pre (c # d # rest))"
| "leadingPairs g1 pre rest = leadingLast g1 pre rest"

definition execLeadingOddSpace :: "string \<Rightarrow> regExpMatch option" where
  "execLeadingOddSpace s = leadingPairs None [] s"

text \<open>\<open>String.prototype.replace(regexp, template)\<close> for a regular expression without the
  global flag: the first match is replaced, and a string with no match is returned as it is.\<close>

definition replace :: "(string \<Rightarrow> regExpMatch option) \<Rightarrow> string \<Rightarrow> string \<Rightarrow> string" where
  "replace exec s template =
     (case exec s of
        None \<Rightarrow> s
      | Some m \<Rightarrow> leftContext m @ getSubstitution m template @ rightContext m)"

section \<open>The whitespace highlighter\<close>

type_synonym Chalk = "string \<Rightarrow> string"

definition highlightTrailingSpaces :: "string \<Rightarrow> Chalk \<Rightarrow> string" where
  "highlightTrailingSpaces line bgColor =
     replace execTrailingSpaces line (bgColor ''$&'')"

definition highlightLeadingTrailingSpaces :: "string \<Rightarrow> Chalk \<Rightarrow> string" where
  "highlightLeadingTrailingSpaces line bgColor =
     replace execLeadingOddSpace (highlightTrailingSpaces line bgColor)
       (''$1'' @ bgColor ''$2'')"

definition getHighlightSpaces :: "bool \<Rightarrow> string \<Rightarrow> Chalk \<Rightarrow> string" where
  "getHighlightSpaces bothEdges =
     (if bothEdges then highlightLeadingTrailingSpaces else highlightTrailingSpaces)"

section \<open>Arrays, options and the imported decorations\<close>

text \<open>
  An array of lines with its identity: the source compares arrays with \<open>!==\<close>, which
  compares references and not contents. Reading an index out of range gives
  \<open>undefined\<close>, here \<open>None\<close>.
\<close>

record jsArray =
  arrayId :: nat
  elems :: "string list"

definition at :: "jsArray \<Rightarrow> int \<Rightarrow> string option" where
  "at arr i = (if 0 \<le> i \<and> i < int (length (elems arr)) then Some (elems arr ! nat i) else None)"

definition arrayLength :: "jsArray \<Rightarrow> int" where
  "arrayLength arr = int (length (elems arr))"

text \<open>
  The fields of \<open>DiffOptionsNormalized\<close> that this module reads. The record is
  extensible: the other fields, which only the annotation printer and the patch mark
  read, live in its extension.
\<close>

record options =
  aColor :: Chalk
  aIndicator :: string
  bColor :: Chalk
  bIndicator :: string
  commonColor :: Chalk
  commonIndicator :: string
  contextLines :: int
  expand :: bool

text \<open>The three decorations of the imported \<open>chalk\<close> object that the module uses.\<close>

record chalkModule =
  chalk_cyan :: Chalk
  chalk_bgYellow :: Chalk
  chalk_inverse :: Chalk

definition fgIndent :: "chalkModule \<Rightarrow> Chalk" where
  "fgIndent chalk = chalk_cyan chalk"

definition bgCommon :: "chalkModule \<Rightarrow> Chalk" where
  "bgCommon chalk = chalk_bgYellow chalk"

definition bgInverse :: "chalkModule \<Rightarrow> Chalk" where
  "bgInverse chalk = chalk_inverse chalk"

section \<open>The range formatters\<close>

text \<open>
  Each formatter is a loop that calls \<open>put\<close> once per index; the model returns the
  lines it puts, in order, and the caller appends them to its array. The body of each
  loop is a function of the lines it reads.
\<close>

definition deleteLine :: "chalkModule \<Rightarrow> bool \<Rightarrow> 'z options_scheme \<Rightarrow> string \<Rightarrow> string \<Rightarrow> string" where
  "deleteLine ch bothEdges options aLineUn aLineIn =
     (let indentation = slice aLineIn 0 (int (length aLineIn) - int (length aLineUn))
      in aColor options
           (aIndicator options @ '' '' @ indentation
              @ getHighlightSpaces bothEdges aLineUn (bgInverse ch)))"

function formatDelete ::
  "chalkModule \<Rightarrow> int \<Rightarrow> int \<Rightarrow> jsArray \<Rightarrow> jsArray \<Rightarrow> 'z options_scheme \<Rightarrow> string list option"
where
  "formatDelete ch aStart aEnd aLinesUn aLinesIn options =
     (if aStart = aEnd then Some []
      else if at aLinesUn aStart = None \<or> at aLinesIn aStart = None then None
      else (case formatDelete ch (aStart + 1) aEnd aLinesUn aLinesIn options of
              None \<Rightarrow> None
            | Some rest \<Rightarrow>
                Some (deleteLine ch (arrayId aLinesUn \<noteq> arrayId aLinesIn) options
                        (the (at aLinesUn aStart)) (the (at aLinesIn aStart)) # rest)))"
  by pat_completeness auto
termination
  by (relation "measure (\<lambda>(ch, aStart, aEnd, aLinesUn, aLinesIn, options).
         nat (arrayLength aLinesUn - aStart))")
     (auto simp: at_def arrayLength_def split: if_splits)

definition insertLine :: "chalkModule \<Rightarrow> bool \<Rightarrow> 'z options_scheme \<Rightarrow> string \<Rightarrow> string \<Rightarrow> string" where
  "insertLine ch bothEdges options bLineUn bLineIn =
     (let indentation = slice bLineIn 0 (int (length bLineIn) - int (length bLineUn))
      in bColor options
           (bIndicator options @ '' '' @ indentation
              @ getHighlightSpaces bothEdges bLineUn (bgInverse ch)))"

function formatInsert ::
  "chalkModule \<Rightarrow> int \<Rightarrow> int \<Rightarrow> jsArray \<Rightarrow> jsArray \<Rightarrow> 'z options_scheme \<Rightarrow> string list option"
where
  "formatInsert ch bStart bEnd bLinesUn bLinesIn options =
     (if bStart = bEnd then Some []
      else if at bLinesUn bStart = None \<or> at bLinesIn bStart = None then None
      else (case formatInsert ch (bStart + 1) bEnd bLinesUn bLinesIn options of
              None \<Rightarrow> None
            | Some rest \<Rightarrow>
                Some (insertLine ch (arrayId bLinesUn \<noteq> arrayId bLinesIn) options
                        (the (at bLinesUn bStart)) (the (at bLinesIn bStart)) # rest)))"
  by pat_completeness auto
termination
  by (relation "measure (\<lambda>(ch, bStart, bEnd, bLinesUn, bLinesIn, options).
         nat (arrayLength bLinesUn - bStart))")
     (auto simp: at_def arrayLength_def split: if_splits)

definition commonLine ::
  "chalkModule \<Rightarrow> bool \<Rightarrow> 'z options_scheme \<Rightarrow> string \<Rightarrow> string \<Rightarrow> string \<Rightarrow> string" where
  "commonLine ch bothEdges options aLineIn bLineUn bLineIn =
     (let bLineInLength = int (length bLineIn);
          indentation = slice bLineIn 0 (bLineInLength - int (length bLineUn));
          hasSameIndentation = (int (length aLineIn) = bLineInLength);
          fg = (if hasSameIndentation then commonColor options else fgIndent ch);
          bg = (if hasSameIndentation then bgCommon ch else bgInverse ch)
      in fg (commonIndicator options @ '' '' @ indentation
               @ getHighlightSpaces bothEdges bLineUn bg))"

function formatCommon ::
  "chalkModule \<Rightarrow> int \<Rightarrow> int \<Rightarrow> int \<Rightarrow> jsArray \<Rightarrow> jsArray \<Rightarrow> jsArray \<Rightarrow> 'z options_scheme
     \<Rightarrow> string list option"
where
  "formatCommon ch nCommon aCommon bCommon aLinesIn bLinesUn bLinesIn options =
     (if nCommon = 0 then Some []
      else if at bLinesUn bCommon = None \<or> at bLinesIn bCommon = None
              \<or> at aLinesIn aCommon = None then None
      else (case formatCommon ch (nCommon - 1) (aCommon + 1) (bCommon + 1)
                   aLinesIn bLinesUn bLinesIn options of
              None \<Rightarrow> None
            | Some rest \<Rightarrow>
                Some (commonLine ch (arrayId bLinesUn \<noteq> arrayId bLinesIn) options
                        (the (at aLinesIn aCommon)) (the (at bLinesUn bCommon))
                        (the (at bLinesIn bCommon)) # rest)))"
  by pat_completeness auto
termination
  by (relation "measure (\<lambda>(ch, nCommon, aCommon, bCommon, aLinesIn, bLinesUn, bLinesIn, options).
         nat (arrayLength bLinesUn - bCommon))")
     (auto simp: at_def arrayLength_def split: if_splits)

section \<open>The imported collaborators\<close>

record changeCounts =
  count_a :: int
  count_b :: int

text \<open>
  What the module imports: \<open>chalk\<close>, the subsequence oracle \<open>diff\<close> of the package
  \<open>diff-sequences\<close>, \<open>NO_DIFF_MESSAGE\<close>, \<open>createPatchMark\<close> and \<open>printAnnotation\<close>.
  None of them is defined in this module, so each is a parameter. The oracle is given
  the two lengths and \<open>isCommon\<close>, and calls \<open>foundSubsequence\<close> once per common run,
  in order: it is modelled by the list of the runs \<open>(nCommon, aCommon, bCommon)\<close> it
  reports.
\<close>

record 'z env =
  chalk :: chalkModule
  diff :: "int \<Rightarrow> int \<Rightarrow> (int \<Rightarrow> int \<Rightarrow> bool) \<Rightarrow> (int \<times> int \<times> int) list"
  NO_DIFF_MESSAGE :: string
  createPatchMark :: "int \<Rightarrow> int \<Rightarrow> int \<Rightarrow> int \<Rightarrow> 'z options_scheme \<Rightarrow> string"
  printAnnotation :: "'z options_scheme \<Rightarrow> changeCounts \<Rightarrow> string"

text \<open>The oracle calling its callback: the state is threaded through the runs, and a
  \<open>TypeError\<close> thrown by the callback ends the pass.\<close>

fun forEachRun :: "('s \<Rightarrow> int \<times> int \<times> int \<Rightarrow> 's option) \<Rightarrow> 's \<Rightarrow> (int \<times> int \<times> int) list \<Rightarrow> 's option" where
  "forEachRun f s [] = Some s"
| "forEachRun f s (r # rs) = (case f s r of None \<Rightarrow> None | Some s' \<Rightarrow> forEachRun f s' rs)"

definition isCommon :: "jsArray \<Rightarrow> jsArray \<Rightarrow> int \<Rightarrow> int \<Rightarrow> bool" where
  "isCommon aLinesUn bLinesUn aIndex bIndex = (at aLinesUn aIndex = at bLinesUn bIndex)"

section \<open>The expanded-mode assembler\<close>

text \<open>The variables that the closure \<open>foundSubsequence\<close> of \<open>diffExpand\<close> captures.\<close>

record expandState =
  arrayX :: "string list"
  changeCountsX :: changeCounts
  aStartX :: int
  bStartX :: int

definition foundSubsequenceExpand ::
  "chalkModule \<Rightarrow> jsArray \<Rightarrow> jsArray \<Rightarrow> jsArray \<Rightarrow> jsArray \<Rightarrow> 'z options_scheme
     \<Rightarrow> expandState \<Rightarrow> int \<times> int \<times> int \<Rightarrow> expandState option" where
  "foundSubsequenceExpand ch aLinesUn bLinesUn aLinesIn bLinesIn options s run =
     (case run of (nCommon, aCommon, bCommon) \<Rightarrow>
        do {
          dels \<leftarrow> formatDelete ch (aStartX s) aCommon aLinesUn aLinesIn options;
          inss \<leftarrow> formatInsert ch (bStartX s) bCommon bLinesUn bLinesIn options;
          coms \<leftarrow> formatCommon ch nCommon aCommon bCommon aLinesIn bLinesUn bLinesIn options;
          Some \<lparr>arrayX = arrayX s @ dels @ inss @ coms,
                changeCountsX =
                  \<lparr>count_a = count_a (changeCountsX s) + (aCommon - aStartX s),
                   count_b = count_b (changeCountsX s) + (bCommon - bStartX s)\<rparr>,
                aStartX = aCommon + nCommon,
                bStartX = bCommon + nCommon\<rparr>
        })"

definition diffExpand ::
  "'z env \<Rightarrow> jsArray \<Rightarrow> jsArray \<Rightarrow> jsArray \<Rightarrow> jsArray \<Rightarrow> 'z options_scheme \<Rightarrow> string option" where
  "diffExpand env aLinesUn bLinesUn aLinesIn bLinesIn options =
     (let aLength = arrayLength aLinesUn;
          bLength = arrayLength bLinesUn
      in do {
          s \<leftarrow> forEachRun
                 (foundSubsequenceExpand (chalk env) aLinesUn bLinesUn aLinesIn bLinesIn options)
                 \<lparr>arrayX = [], changeCountsX = \<lparr>count_a = 0, count_b = 0\<rparr>,
                  aStartX = 0, bStartX = 0\<rparr>
                 (diff env aLength bLength (isCommon aLinesUn bLinesUn));
          dels \<leftarrow> formatDelete (chalk env) (aStartX s) aLength aLinesUn aLinesIn options;
          inss \<leftarrow> formatInsert (chalk env) (bStartX s) bLength bLinesUn bLinesIn options;
          Some (printAnnotation env options
                  \<lparr>count_a = count_a (changeCountsX s) + (aLength - aStartX s),
                   count_b = count_b (changeCountsX s) + (bLength - bStartX s)\<rparr>
                @ join (arrayX s @ dels @ inss))
        })"

section \<open>The windowed-mode assembler\<close>

text \<open>The variables that the closure \<open>foundSubsequence\<close> of \<open>diffNoExpand\<close> captures.\<close>

record noExpandState =
  iPatchMark :: nat
  array :: "string list"
  isAtEnd :: bool
  changeCounts :: changeCounts
  aStart :: int
  aEnd :: int
  bStart :: int
  bEnd :: int

text \<open>The assignment \<open>array[i] = v\<close>: past the end, JavaScript extends the array, and
  \<open>join\<close> prints the holes as empty strings.\<close>

definition setAt :: "string list \<Rightarrow> nat \<Rightarrow> string \<Rightarrow> string list" where
  "setAt xs i v =
     (if i < length xs then xs[i := v] else xs @ replicate (i - length xs) [] @ [v])"

definition foundSubsequenceNoExpand ::
  "'z env \<Rightarrow> jsArray \<Rightarrow> jsArray \<Rightarrow> jsArray \<Rightarrow> jsArray \<Rightarrow> 'z options_scheme
     \<Rightarrow> noExpandState \<Rightarrow> int \<times> int \<times> int \<Rightarrow> noExpandState option" where
  "foundSubsequenceNoExpand env aLinesUn bLinesUn aLinesIn bLinesIn options s0 run =
     (case run of (nCommon, aStartCommon, bStartCommon) \<Rightarrow>
        let aLength = arrayLength aLinesUn;
            bLength = arrayLength bLinesUn;
            nContextLines = contextLines options;
            nContextLines2 = nContextLines + nContextLines;
            aEndCommon = aStartCommon + nCommon;
            bEndCommon = bStartCommon + nCommon;
            s1 = s0\<lparr>isAtEnd := (aEndCommon = aLength \<and> bEndCommon = bLength)\<rparr>
        in
          if aStartCommon = 0 \<and> bStartCommon = 0 then
            (let nLines = (if nContextLines < nCommon then nContextLines else nCommon);
                 s2 = s1\<lparr>aStart := aEndCommon - nLines, bStart := bEndCommon - nLines\<rparr>
             in do {
                  coms \<leftarrow> formatCommon (chalk env) nLines (aStart s2) (bStart s2)
                            aLinesIn bLinesUn bLinesIn options;
                  Some (s2\<lparr>array := array s2 @ coms, aEnd := aEndCommon, bEnd := bEndCommon\<rparr>)
                })
          else do {
            dels \<leftarrow> formatDelete (chalk env) (aEnd s1) aStartCommon aLinesUn aLinesIn options;
            inss \<leftarrow> formatInsert (chalk env) (bEnd s1) bStartCommon bLinesUn bLinesIn options;
            let s2 = s1\<lparr>changeCounts :=
                          \<lparr>count_a = count_a (changeCounts s1) + (aStartCommon - aEnd s1),
                           count_b = count_b (changeCounts s1) + (bStartCommon - bEnd s1)\<rparr>,
                        array := array s1 @ dels @ inss,
                        aEnd := aStartCommon, bEnd := bStartCommon\<rparr>;
            let maxContextLines = (if isAtEnd s2 then nContextLines else nContextLines2);
            if nCommon \<le> maxContextLines then do {
              coms \<leftarrow> formatCommon (chalk env) nCommon (aEnd s2) (bEnd s2)
                        aLinesIn bLinesUn bLinesIn options;
              Some (s2\<lparr>array := array s2 @ coms,
                        aEnd := aEnd s2 + nCommon, bEnd := bEnd s2 + nCommon\<rparr>)
            } else do {
              coms \<leftarrow> formatCommon (chalk env) nContextLines (aEnd s2) (bEnd s2)
                        aLinesIn bLinesUn bLinesIn options;
              let s3 = s2\<lparr>array := array s2 @ coms,
                          aEnd := aEnd s2 + nContextLines, bEnd := bEnd s2 + nContextLines\<rparr>;
              let s4 = s3\<lparr>array := setAt (array s3) (iPatchMark s3)
                              (createPatchMark env (aStart s3) (aEnd s3) (bStart s3) (bEnd s3)
                                 options)\<rparr>;
              if \<not> isAtEnd s4 then do {
                let s5 = s4\<lparr>iPatchMark := length (array s4)\<rparr>;
                let s6 = s5\<lparr>array := setAt (array s5) (iPatchMark s5) []\<rparr>;
                let nLines = (if nContextLines < nCommon then nContextLines else nCommon);
                let s7 = s6\<lparr>aStart := aEndCommon - nLines, bStart := bEndCommon - nLines\<rparr>;
                coms2 \<leftarrow> formatCommon (chalk env) nLines (aStart s7) (bStart s7)
                           aLinesIn bLinesUn bLinesIn options;
                Some (s7\<lparr>array := array s7 @ coms2, aEnd := aEndCommon, bEnd := bEndCommon\<rparr>)
              } else Some s4
            }
          })"

definition diffNoExpand ::
  "'z env \<Rightarrow> jsArray \<Rightarrow> jsArray \<Rightarrow> jsArray \<Rightarrow> jsArray \<Rightarrow> 'z options_scheme \<Rightarrow> string option" where
  "diffNoExpand env aLinesUn bLinesUn aLinesIn bLinesIn options =
     (let aLength = arrayLength aLinesUn;
          bLength = arrayLength bLinesUn
      in do {
          s1 \<leftarrow> forEachRun
                  (foundSubsequenceNoExpand env aLinesUn bLinesUn aLinesIn bLinesIn options)
                  \<lparr>iPatchMark = 0, array = [[]], isAtEnd = False,
                   changeCounts = \<lparr>count_a = 0, count_b = 0\<rparr>,
                   aStart = 0, aEnd = 0, bStart = 0, bEnd = 0\<rparr>
                  (diff env aLength bLength (isCommon aLinesUn bLinesUn));
          s2 \<leftarrow> (if \<not> isAtEnd s1 then do {
                    dels \<leftarrow> formatDelete (chalk env) (aEnd s1) aLength aLinesUn aLinesIn options;
                    inss \<leftarrow> formatInsert (chalk env) (bEnd s1) bLength bLinesUn bLinesIn options;
                    Some (s1\<lparr>changeCounts :=
                               \<lparr>count_a = count_a (changeCounts s1) + (aLength - aEnd s1),
                                count_b = count_b (changeCounts s1) + (bLength - bEnd s1)\<rparr>,
                             array := array s1 @ dels @ inss,
                             aEnd := aLength, bEnd := bLength\<rparr>)
                  } else Some s1);
          let s3 = (if aStart s2 = 0 \<and> aEnd s2 = aLength \<and> bStart s2 = 0 \<and> bEnd s2 = bLength
                    then s2\<lparr>array := drop 1 (array s2)\<rparr>
                    else s2\<lparr>array := setAt (array s2) (iPatchMark s2)
                                (createPatchMark env (aStart s2) (aEnd s2) (bStart s2) (bEnd s2)
                                   options)\<rparr>);
          Some (printAnnotation env options (changeCounts s3) @ join (array s3))
        })"

section \<open>The entry point\<close>

text \<open>
  The default export. \<open>split\<close> makes a new array each time, so the four arrays get four
  identities; the assignments \<open>aLinesIn = aLinesUn\<close> and \<open>aLinesUn = aLinesIn\<close> share one.
\<close>

record original =
  original_a :: string
  original_b :: string

definition diffLines ::
  "'z env \<Rightarrow> string \<Rightarrow> string \<Rightarrow> 'z options_scheme \<Rightarrow> original option \<Rightarrow> string option" where
  "diffLines env a b options orig =
     (if a = b then Some (NO_DIFF_MESSAGE env)
      else
        let aLinesUn0 = \<lparr>arrayId = 0, elems = split a\<rparr>;
            bLinesUn0 = \<lparr>arrayId = 1, elems = split b\<rparr>;
            (aLinesUn, bLinesUn, aLinesIn, bLinesIn) =
              (case orig of
                 None \<Rightarrow> (aLinesUn0, bLinesUn0, aLinesUn0, bLinesUn0)
               | Some original \<Rightarrow>
                   let aLinesIn1 = \<lparr>arrayId = 2, elems = split (original_a original)\<rparr>;
                       bLinesIn1 = \<lparr>arrayId = 3, elems = split (original_b original)\<rparr>
                   in if arrayLength aLinesUn0 \<noteq> arrayLength aLinesIn1
                         \<or> arrayLength bLinesUn0 \<noteq> arrayLength bLinesIn1
                      then (aLinesIn1, bLinesIn1, aLinesIn1, bLinesIn1)
                      else (aLinesUn0, bLinesUn0, aLinesIn1, bLinesIn1))
        in if expand options
           then diffExpand env aLinesUn bLinesUn aLinesIn bLinesIn options
           else diffNoExpand env aLinesUn bLinesUn aLinesIn bLinesIn options)"

section \<open>Specification-level descriptions\<close>

text \<open>
  The lines of an index range, written as maps over the range. The formatters are
  loops; the lemmas below show that, on a range inside the arrays, each loop puts
  exactly these lines.
\<close>

definition deleteLines ::
  "chalkModule \<Rightarrow> jsArray \<Rightarrow> jsArray \<Rightarrow> 'z options_scheme \<Rightarrow> int \<Rightarrow> int \<Rightarrow> string list" where
  "deleteLines ch aLinesUn aLinesIn options lo hi =
     map (\<lambda>i. deleteLine ch (arrayId aLinesUn \<noteq> arrayId aLinesIn) options
                 (elems aLinesUn ! nat i) (elems aLinesIn ! nat i)) [lo..hi - 1]"

definition insertLines ::
  "chalkModule \<Rightarrow> jsArray \<Rightarrow> jsArray \<Rightarrow> 'z options_scheme \<Rightarrow> int \<Rightarrow> int \<Rightarrow> string list" where
  "insertLines ch bLinesUn bLinesIn options lo hi =
     map (\<lambda>i. insertLine ch (arrayId bLinesUn \<noteq> arrayId bLinesIn) options
                 (elems bLinesUn ! nat i) (elems bLinesIn ! nat i)) [lo..hi - 1]"

definition commonLines ::
  "chalkModule \<Rightarrow> jsArray \<Rightarrow> jsArray \<Rightarrow> jsArray \<Rightarrow> 'z options_scheme \<Rightarrow> int \<Rightarrow> int \<Rightarrow> int
     \<Rightarrow> string list" where
  "commonLines ch aLinesIn bLinesUn bLinesIn options n a b =
     map (\<lambda>k. commonLine ch (arrayId bLinesUn \<noteq> arrayId bLinesIn) options
                 (elems aLinesIn ! nat (a + k)) (elems bLinesUn ! nat (b + k))
                 (elems bLinesIn ! nat (b + k))) [0..n - 1]"

text \<open>
  Modelled from the spec: the subsequence oracle (the package \<open>diff-sequences\<close>) is not
  part of this module. The spec says that it reports the common runs once each, in
  left-to-right order, non-overlapping and increasing in both index spaces, inside
  \<open>[0, lenA)\<close> and \<open>[0, lenB)\<close>. \<open>validRuns aPrev bPrev lenA lenB runs\<close> says so for the
  runs that start at or after \<open>(aPrev, bPrev)\<close>. Neither maximality of a run nor the
  equality of its lines is asked for: no proof here needs them.
\<close>

fun validRuns :: "int \<Rightarrow> int \<Rightarrow> int \<Rightarrow> int \<Rightarrow> (int \<times> int \<times> int) list \<Rightarrow> bool" where
  "validRuns aPrev bPrev lenA lenB [] = (aPrev \<le> lenA \<and> bPrev \<le> lenB)"
| "validRuns aPrev bPrev lenA lenB ((n, a, b) # rs) =
     (0 < n \<and> aPrev \<le> a \<and> bPrev \<le> b \<and> validRuns (a + n) (b + n) lenA lenB rs)"

text \<open>No run is truncated by the windowed mode: a run at the start has at most \<open>c\<close>
  lines, the final run at most \<open>c\<close>, an internal run at most \<open>2c\<close>.\<close>

fun noTruncation :: "int \<Rightarrow> int \<Rightarrow> int \<Rightarrow> (int \<times> int \<times> int) list \<Rightarrow> bool" where
  "noTruncation c lenA lenB [] = True"
| "noTruncation c lenA lenB ((n, a, b) # rs) =
     (n \<le> (if a = 0 \<and> b = 0 then c
            else if a + n = lenA \<and> b + n = lenB then c else c + c)
      \<and> noTruncation c lenA lenB rs)"

text \<open>
  The output of a full pass as a list of items, each naming the indices it consumes:
  between two runs the deleted indices of side A, then the inserted indices of side B,
  then the pairs of the run, and after the last run the rest of both sides.
\<close>

datatype item = Delete int | Insert int | Common int int

fun renderItem ::
  "chalkModule \<Rightarrow> jsArray \<Rightarrow> jsArray \<Rightarrow> jsArray \<Rightarrow> jsArray \<Rightarrow> 'z options_scheme \<Rightarrow> item \<Rightarrow> string" where
  "renderItem ch aLinesUn bLinesUn aLinesIn bLinesIn options (Delete i) =
     deleteLine ch (arrayId aLinesUn \<noteq> arrayId aLinesIn) options
       (elems aLinesUn ! nat i) (elems aLinesIn ! nat i)"
| "renderItem ch aLinesUn bLinesUn aLinesIn bLinesIn options (Insert j) =
     insertLine ch (arrayId bLinesUn \<noteq> arrayId bLinesIn) options
       (elems bLinesUn ! nat j) (elems bLinesIn ! nat j)"
| "renderItem ch aLinesUn bLinesUn aLinesIn bLinesIn options (Common i j) =
     commonLine ch (arrayId bLinesUn \<noteq> arrayId bLinesIn) options
       (elems aLinesIn ! nat i) (elems bLinesUn ! nat j) (elems bLinesIn ! nat j)"

fun runItems :: "int \<Rightarrow> int \<Rightarrow> (int \<times> int \<times> int) list \<Rightarrow> item list" where
  "runItems aPrev bPrev [] = []"
| "runItems aPrev bPrev ((n, a, b) # rs) =
     map Delete [aPrev..a - 1] @ map Insert [bPrev..b - 1]
       @ map (\<lambda>k. Common (a + k) (b + k)) [0..n - 1] @ runItems (a + n) (b + n) rs"

fun endA :: "int \<Rightarrow> (int \<times> int \<times> int) list \<Rightarrow> int" where
  "endA aPrev [] = aPrev"
| "endA aPrev ((n, a, b) # rs) = endA (a + n) rs"

fun endB :: "int \<Rightarrow> (int \<times> int \<times> int) list \<Rightarrow> int" where
  "endB bPrev [] = bPrev"
| "endB bPrev ((n, a, b) # rs) = endB (b + n) rs"

definition passItems :: "int \<Rightarrow> int \<Rightarrow> (int \<times> int \<times> int) list \<Rightarrow> item list" where
  "passItems lenA lenB runs =
     runItems 0 0 runs @ map Delete [endA 0 runs..lenA - 1] @ map Insert [endB 0 runs..lenB - 1]"

fun aIndices :: "item list \<Rightarrow> int list" where
  "aIndices [] = []"
| "aIndices (Delete i # xs) = i # aIndices xs"
| "aIndices (Insert j # xs) = aIndices xs"
| "aIndices (Common i j # xs) = i # aIndices xs"

fun bIndices :: "item list \<Rightarrow> int list" where
  "bIndices [] = []"
| "bIndices (Delete i # xs) = bIndices xs"
| "bIndices (Insert j # xs) = j # bIndices xs"
| "bIndices (Common i j # xs) = j # bIndices xs"

fun deleteCount :: "item list \<Rightarrow> int" where
  "deleteCount [] = 0"
| "deleteCount (Delete i # xs) = 1 + deleteCount xs"
| "deleteCount (x # xs) = deleteCount xs"

fun insertCount :: "item list \<Rightarrow> int" where
  "insertCount [] = 0"
| "insertCount (Insert j # xs) = 1 + insertCount xs"
| "insertCount (x # xs) = insertCount xs"

text \<open>The windowed state that shows the same lines as an expanded state: one
  placeholder in front, one window from the start.\<close>

definition windowOf :: "expandState \<Rightarrow> bool \<Rightarrow> noExpandState" where
  "windowOf se atEnd =
     \<lparr>iPatchMark = 0, array = [] # arrayX se, isAtEnd = atEnd,
      changeCounts = changeCountsX se,
      aStart = 0, aEnd = aStartX se, bStart = 0, bEnd = bStartX se\<rparr>"

fun atEndAfter :: "bool \<Rightarrow> int \<Rightarrow> int \<Rightarrow> (int \<times> int \<times> int) list \<Rightarrow> bool" where
  "atEndAfter atEnd lenA lenB [] = atEnd"
| "atEndAfter atEnd lenA lenB ((n, a, b) # rs) =
     atEndAfter (a + n = lenA \<and> b + n = lenB) lenA lenB rs"

section \<open>Example inputs\<close>

text \<open>A concrete environment for the examples: decorations that wrap their argument in
  visible tags, an oracle that reports a given list of runs, a patch mark and an
  annotation that print their numbers as single digits.\<close>

definition demoChalk :: chalkModule where
  "demoChalk = \<lparr>chalk_cyan = (\<lambda>s. ''<cyan>'' @ s @ ''</cyan>''),
                 chalk_bgYellow = (\<lambda>s. ''<bgYellow>'' @ s @ ''</bgYellow>''),
                 chalk_inverse = (\<lambda>s. ''<inverse>'' @ s @ ''</inverse>'')\<rparr>"

definition demoOptions :: "int \<Rightarrow> bool \<Rightarrow> options" where
  "demoOptions c e =
     \<lparr>aColor = (\<lambda>s. ''<green>'' @ s @ ''</green>''), aIndicator = ''-'',
      bColor = (\<lambda>s. ''<red>'' @ s @ ''</red>''), bIndicator = ''+'',
      commonColor = (\<lambda>s. ''<dim>'' @ s @ ''</dim>''), commonIndicator = '' '',
      contextLines = c, expand = e\<rparr>"

definition demoDigit :: "int \<Rightarrow> string" where
  "demoDigit i = [''0123456789'' ! nat i]"

definition demoEnv :: "(int \<times> int \<times> int) list \<Rightarrow> unit env" where
  "demoEnv runs =
     \<lparr>chalk = demoChalk,
      diff = (\<lambda>aLength bLength isCommon. runs),
      NO_DIFF_MESSAGE = ''Compared values have no visual difference.'',
      createPatchMark = (\<lambda>aStart aEnd bStart bEnd options.
         ''@@ -'' @ demoDigit (aStart + 1) @ '','' @ demoDigit (aEnd - aStart)
           @ '' +'' @ demoDigit (bStart + 1) @ '','' @ demoDigit (bEnd - bStart) @ '' @@''),
      printAnnotation = (\<lambda>options counts.
         ''- '' @ demoDigit (count_a counts) @ '' + '' @ demoDigit (count_b counts) @ [CHR 0x0A])\<rparr>"

definition demoA :: jsArray where
  "demoA = \<lparr>arrayId = 0, elems = [''x'', ''k1'', ''k2'', ''k3'', ''y'']\<rparr>"

definition demoB :: jsArray where
  "demoB = \<lparr>arrayId = 1, elems = [''X'', ''k1'', ''k2'', ''k3'', ''Y'']\<rparr>"

definition demoState :: noExpandState where
  "demoState = \<lparr>iPatchMark = 0, array = [[]], isAtEnd = False,
                 changeCounts = \<lparr>count_a = 0, count_b = 0\<rparr>,
                 aStart = 0, aEnd = 0, bStart = 0, bEnd = 0\<rparr>"

definition demoC :: jsArray where
  "demoC = \<lparr>arrayId = 0, elems = [''k1'', ''k2'', ''k3'', ''y'']\<rparr>"

definition demoD :: jsArray where
  "demoD = \<lparr>arrayId = 1, elems = [''k1'', ''k2'', ''k3'', ''Y'']\<rparr>"

definition demoInA :: jsArray where
  "demoInA = \<lparr>arrayId = 2, elems = [''    k1'', ''k2 '']\<rparr>"

definition demoUnB :: jsArray where
  "demoUnB = \<lparr>arrayId = 1, elems = [''k1'', ''k2 '']\<rparr>"

definition demoInB :: jsArray where
  "demoInB = \<lparr>arrayId = 3, elems = [''  k1'', ''k2 '']\<rparr>"

definition demoFooA :: jsArray where
  "demoFooA = \<lparr>arrayId = 0, elems = [''foo'', ''bar'', ''baz'']\<rparr>"

definition demoFooB :: jsArray where
  "demoFooB = \<lparr>arrayId = 1, elems = [''foo'', ''BAR'', ''baz'']\<rparr>"

section \<open>The range formatters put the lines of their range\<close>

declare formatDelete.simps [simp del] formatInsert.simps [simp del] formatCommon.simps [simp del]

lemma at_in_range: "0 \<le> i \<Longrightarrow> i < arrayLength arr \<Longrightarrow> at arr i = Some (elems arr ! nat i)"
  by (simp add: at_def arrayLength_def)

lemma formatDelete_range:
  "0 \<le> lo \<Longrightarrow> lo \<le> hi \<Longrightarrow> hi \<le> arrayLength aLinesUn \<Longrightarrow> hi \<le> arrayLength aLinesIn \<Longrightarrow>
   formatDelete ch lo hi aLinesUn aLinesIn options = Some (deleteLines ch aLinesUn aLinesIn options lo hi)"
proof (induction ch lo hi aLinesUn aLinesIn options rule: formatDelete.induct)
  case (1 ch lo hi aLinesUn aLinesIn options)
  show ?case
  proof (cases "lo = hi")
    case True
    then show ?thesis by (simp add: formatDelete.simps deleteLines_def)
  next
    case False
    with "1.prems" have lt: "lo < hi" by simp
    have a1: "at aLinesUn lo = Some (elems aLinesUn ! nat lo)"
      using "1.prems" lt by (simp add: at_in_range)
    have a2: "at aLinesIn lo = Some (elems aLinesIn ! nat lo)"
      using "1.prems" lt by (simp add: at_in_range)
    have ih: "formatDelete ch (lo + 1) hi aLinesUn aLinesIn options
               = Some (deleteLines ch aLinesUn aLinesIn options (lo + 1) hi)"
      using "1.IH" False a1 a2 "1.prems" lt by simp
    have up: "[lo..hi - 1] = lo # [lo + 1..hi - 1]"
      using lt by (simp add: upto_rec1)
    show ?thesis
      using False a1 a2 ih up
      by (subst formatDelete.simps) (simp add: deleteLines_def)
  qed
qed

lemma formatInsert_range:
  "0 \<le> lo \<Longrightarrow> lo \<le> hi \<Longrightarrow> hi \<le> arrayLength bLinesUn \<Longrightarrow> hi \<le> arrayLength bLinesIn \<Longrightarrow>
   formatInsert ch lo hi bLinesUn bLinesIn options = Some (insertLines ch bLinesUn bLinesIn options lo hi)"
proof (induction ch lo hi bLinesUn bLinesIn options rule: formatInsert.induct)
  case (1 ch lo hi bLinesUn bLinesIn options)
  show ?case
  proof (cases "lo = hi")
    case True
    then show ?thesis by (simp add: formatInsert.simps insertLines_def)
  next
    case False
    with "1.prems" have lt: "lo < hi" by simp
    have a1: "at bLinesUn lo = Some (elems bLinesUn ! nat lo)"
      using "1.prems" lt by (simp add: at_in_range)
    have a2: "at bLinesIn lo = Some (elems bLinesIn ! nat lo)"
      using "1.prems" lt by (simp add: at_in_range)
    have ih: "formatInsert ch (lo + 1) hi bLinesUn bLinesIn options
               = Some (insertLines ch bLinesUn bLinesIn options (lo + 1) hi)"
      using "1.IH" False a1 a2 "1.prems" lt by simp
    have up: "[lo..hi - 1] = lo # [lo + 1..hi - 1]"
      using lt by (simp add: upto_rec1)
    show ?thesis
      using False a1 a2 ih up
      by (subst formatInsert.simps) (simp add: insertLines_def)
  qed
qed

lemma upto_shift: "map (\<lambda>k. k + 1) [i..j] = [i + 1..j + 1]"
  by (rule nth_equalityI) simp_all

lemma commonLines_step:
  assumes "0 < n"
  shows "commonLines ch aLinesIn bLinesUn bLinesIn options n a b =
     commonLine ch (arrayId bLinesUn \<noteq> arrayId bLinesIn) options
        (elems aLinesIn ! nat a) (elems bLinesUn ! nat b) (elems bLinesIn ! nat b)
     # commonLines ch aLinesIn bLinesUn bLinesIn options (n - 1) (a + 1) (b + 1)"
proof -
  have "[0..n - 1] = 0 # [0 + 1..(n - 1 - 1) + 1]"
    using assms by (simp add: upto_rec1)
  then have "[0..n - 1] = 0 # map (\<lambda>k. k + 1) [0..n - 1 - 1]"
    by (simp only: upto_shift)
  then show ?thesis
    unfolding commonLines_def by (simp add: o_def add.commute add.left_commute)
qed

lemma formatCommon_range:
  "0 \<le> n \<Longrightarrow> 0 \<le> a \<Longrightarrow> 0 \<le> b \<Longrightarrow> a + n \<le> arrayLength aLinesIn \<Longrightarrow>
   b + n \<le> arrayLength bLinesUn \<Longrightarrow> b + n \<le> arrayLength bLinesIn \<Longrightarrow>
   formatCommon ch n a b aLinesIn bLinesUn bLinesIn options
     = Some (commonLines ch aLinesIn bLinesUn bLinesIn options n a b)"
proof (induction ch n a b aLinesIn bLinesUn bLinesIn options rule: formatCommon.induct)
  case (1 ch n a b aLinesIn bLinesUn bLinesIn options)
  show ?case
  proof (cases "n = 0")
    case True
    then show ?thesis by (simp add: formatCommon.simps commonLines_def)
  next
    case False
    with "1.prems" have pos: "0 < n" by simp
    have a1: "at bLinesUn b = Some (elems bLinesUn ! nat b)"
      using "1.prems" pos by (simp add: at_in_range)
    have a2: "at bLinesIn b = Some (elems bLinesIn ! nat b)"
      using "1.prems" pos by (simp add: at_in_range)
    have a3: "at aLinesIn a = Some (elems aLinesIn ! nat a)"
      using "1.prems" pos by (simp add: at_in_range)
    have ih: "formatCommon ch (n - 1) (a + 1) (b + 1) aLinesIn bLinesUn bLinesIn options
               = Some (commonLines ch aLinesIn bLinesUn bLinesIn options (n - 1) (a + 1) (b + 1))"
      using "1.IH" False a1 a2 a3 "1.prems" pos by simp
    show ?thesis
      using False a1 a2 a3 ih
      by (subst formatCommon.simps) (simp add: commonLines_step[OF pos])
  qed
qed

lemma commonLines_length: "length (commonLines ch aLinesIn bLinesUn bLinesIn options n a b) = nat n"
  by (simp add: commonLines_def)

section \<open>One step of the windowed assembler\<close>

lemma setAt_length: "i < length xs \<Longrightarrow> length (setAt xs i v) = length xs"
  by (simp add: setAt_def)

lemma setAt_end: "setAt xs (length xs) v = xs @ [v]"
  by (simp add: setAt_def)

lemma step_changes:
  assumes "0 \<le> aEnd s" "aEnd s \<le> a" "0 \<le> bEnd s" "bEnd s \<le> b"
    and "a \<le> arrayLength aLinesUn" "a \<le> arrayLength aLinesIn"
    and "b \<le> arrayLength bLinesUn" "b \<le> arrayLength bLinesIn"
  shows "formatDelete ch (aEnd s) a aLinesUn aLinesIn options
           = Some (deleteLines ch aLinesUn aLinesIn options (aEnd s) a)"
    and "formatInsert ch (bEnd s) b bLinesUn bLinesIn options
           = Some (insertLines ch bLinesUn bLinesIn options (bEnd s) b)"
  using assms by (simp_all add: formatDelete_range formatInsert_range)

lemma step_full:
  assumes notStart: "\<not> (a = 0 \<and> b = 0)"
    and bound: "n \<le> (if a + n = arrayLength aLinesUn \<and> b + n = arrayLength bLinesUn
                      then contextLines options else contextLines options + contextLines options)"
    and n: "0 \<le> n"
    and prev: "0 \<le> aEnd s" "aEnd s \<le> a" "0 \<le> bEnd s" "bEnd s \<le> b"
    and inA: "a + n \<le> arrayLength aLinesUn" "arrayLength aLinesIn = arrayLength aLinesUn"
    and inB: "b + n \<le> arrayLength bLinesUn" "arrayLength bLinesIn = arrayLength bLinesUn"
  shows "foundSubsequenceNoExpand env aLinesUn bLinesUn aLinesIn bLinesIn options s (n, a, b) =
     Some (s\<lparr>isAtEnd := (a + n = arrayLength aLinesUn \<and> b + n = arrayLength bLinesUn),
             changeCounts := \<lparr>count_a = count_a (changeCounts s) + (a - aEnd s),
                               count_b = count_b (changeCounts s) + (b - bEnd s)\<rparr>,
             array := array s
                        @ deleteLines (chalk env) aLinesUn aLinesIn options (aEnd s) a
                        @ insertLines (chalk env) bLinesUn bLinesIn options (bEnd s) b
                        @ commonLines (chalk env) aLinesIn bLinesUn bLinesIn options n a b,
             aEnd := a + n, bEnd := b + n\<rparr>)"
proof -
  have d: "formatDelete (chalk env) (aEnd s) a aLinesUn aLinesIn options
           = Some (deleteLines (chalk env) aLinesUn aLinesIn options (aEnd s) a)"
    and i: "formatInsert (chalk env) (bEnd s) b bLinesUn bLinesIn options
           = Some (insertLines (chalk env) bLinesUn bLinesIn options (bEnd s) b)"
    using step_changes[of s a b aLinesUn aLinesIn bLinesUn bLinesIn] prev inA inB n by auto
  have fc: "formatCommon (chalk env) n a b aLinesIn bLinesUn bLinesIn options
      = Some (commonLines (chalk env) aLinesIn bLinesUn bLinesIn options n a b)"
    using n prev inA inB by (intro formatCommon_range) auto
  have ns: "(a = 0 \<and> b = 0) = False" using notStart by simp
  show ?thesis
  proof (cases "a + n = arrayLength aLinesUn \<and> b + n = arrayLength bLinesUn")
    case True
    then have le: "n \<le> contextLines options" using bound by simp
    show ?thesis
      unfolding foundSubsequenceNoExpand_def
      by (simp only: Let_def prod.case ns if_False True if_True)
         (simp add: d i fc le True)
  next
    case False
    then have le: "n \<le> 2 * contextLines options" using bound by (auto split: if_splits)
    show ?thesis
      unfolding foundSubsequenceNoExpand_def
      by (simp only: Let_def prod.case ns if_False False)
         (simp add: d i fc le False)
  qed
qed

lemma step_truncated:
  assumes notStart: "\<not> (a = 0 \<and> b = 0)"
    and bound: "\<not> n \<le> (if a + n = arrayLength aLinesUn \<and> b + n = arrayLength bLinesUn
                      then contextLines options else contextLines options + contextLines options)"
    and c: "0 \<le> contextLines options"
    and prev: "0 \<le> aEnd s" "aEnd s \<le> a" "0 \<le> bEnd s" "bEnd s \<le> b"
    and inA: "a + n \<le> arrayLength aLinesUn" "arrayLength aLinesIn = arrayLength aLinesUn"
    and inB: "b + n \<le> arrayLength bLinesUn" "arrayLength bLinesIn = arrayLength bLinesUn"
  shows "foundSubsequenceNoExpand env aLinesUn bLinesUn aLinesIn bLinesIn options s (n, a, b) =
     (let c = contextLines options;
          closed = setAt (array s
                        @ deleteLines (chalk env) aLinesUn aLinesIn options (aEnd s) a
                        @ insertLines (chalk env) bLinesUn bLinesIn options (bEnd s) b
                        @ commonLines (chalk env) aLinesIn bLinesUn bLinesIn options c a b)
                     (iPatchMark s)
                     (createPatchMark env (aStart s) (a + c) (bStart s) (b + c) options);
          counts = \<lparr>count_a = count_a (changeCounts s) + (a - aEnd s),
                    count_b = count_b (changeCounts s) + (b - bEnd s)\<rparr>
      in if a + n = arrayLength aLinesUn \<and> b + n = arrayLength bLinesUn
         then Some (s\<lparr>isAtEnd := True, changeCounts := counts, array := closed,
                      aEnd := a + c, bEnd := b + c\<rparr>)
         else Some (s\<lparr>iPatchMark := length closed, isAtEnd := False, changeCounts := counts,
                      array := closed @ [] # commonLines (chalk env) aLinesIn bLinesUn bLinesIn
                                 options (min c n) (a + n - min c n) (b + n - min c n),
                      aStart := a + n - min c n, bStart := b + n - min c n,
                      aEnd := a + n, bEnd := b + n\<rparr>))"
proof -
  let ?c = "contextLines options"
  have lt: "?c < n" using bound c by (auto split: if_splits)
  have m: "min ?c n = ?c" using lt by simp
  have d: "formatDelete (chalk env) (aEnd s) a aLinesUn aLinesIn options
           = Some (deleteLines (chalk env) aLinesUn aLinesIn options (aEnd s) a)"
    and i: "formatInsert (chalk env) (bEnd s) b bLinesUn bLinesIn options
           = Some (insertLines (chalk env) bLinesUn bLinesIn options (bEnd s) b)"
    using step_changes[of s a b aLinesUn aLinesIn bLinesUn bLinesIn] prev inA inB lt c by auto
  have fc1: "formatCommon (chalk env) ?c a b aLinesIn bLinesUn bLinesIn options
      = Some (commonLines (chalk env) aLinesIn bLinesUn bLinesIn options ?c a b)"
    using c lt prev inA inB by (intro formatCommon_range) auto
  have fc2: "formatCommon (chalk env) ?c (a + n - ?c) (b + n - ?c) aLinesIn bLinesUn bLinesIn options
      = Some (commonLines (chalk env) aLinesIn bLinesUn bLinesIn options ?c (a + n - ?c) (b + n - ?c))"
    using c lt prev inA inB by (intro formatCommon_range) auto
  have ns: "(a = 0 \<and> b = 0) = False" using notStart by simp
  have ltc: "(contextLines options < n) = True" using lt by simp
  show ?thesis
  proof (cases "a + n = arrayLength aLinesUn \<and> b + n = arrayLength bLinesUn")
    case True
    then have le: "\<not> n \<le> contextLines options" using bound by simp
    show ?thesis
      unfolding foundSubsequenceNoExpand_def
      by (simp only: Let_def prod.case ns if_False True if_True)
         (simp add: d i fc1 le True)
  next
    case False
    then have le: "\<not> n \<le> 2 * contextLines options" using bound by (auto split: if_splits)
    show ?thesis
      unfolding foundSubsequenceNoExpand_def
      by (simp only: Let_def prod.case ns if_False False ltc if_True m)
         (simp add: d i fc1 fc2 le False setAt_end)
  qed
qed

lemma step_first:
  assumes c: "0 \<le> contextLines options"
    and n: "0 \<le> nCommon"
    and inA: "nCommon \<le> arrayLength aLinesIn"
    and inB: "nCommon \<le> arrayLength bLinesUn" "nCommon \<le> arrayLength bLinesIn"
  shows "foundSubsequenceNoExpand env aLinesUn bLinesUn aLinesIn bLinesIn options s (nCommon, 0, 0) =
     Some (s\<lparr>isAtEnd := (nCommon = arrayLength aLinesUn \<and> nCommon = arrayLength bLinesUn),
             aStart := nCommon - min (contextLines options) nCommon,
             bStart := nCommon - min (contextLines options) nCommon,
             array := array s @ commonLines (chalk env) aLinesIn bLinesUn bLinesIn options
                        (min (contextLines options) nCommon)
                        (nCommon - min (contextLines options) nCommon)
                        (nCommon - min (contextLines options) nCommon),
             aEnd := nCommon, bEnd := nCommon\<rparr>)
     \<and> length (commonLines (chalk env) aLinesIn bLinesUn bLinesIn options
                        (min (contextLines options) nCommon)
                        (nCommon - min (contextLines options) nCommon)
                        (nCommon - min (contextLines options) nCommon))
         = nat (min (contextLines options) nCommon)"
proof -
  let ?m = "min (contextLines options) nCommon"
  have m: "(if contextLines options < nCommon then contextLines options else nCommon) = ?m"
    by (simp add: min_def)
  have fc: "formatCommon (chalk env) ?m (nCommon - ?m) (nCommon - ?m) aLinesIn bLinesUn bLinesIn options
      = Some (commonLines (chalk env) aLinesIn bLinesUn bLinesIn options ?m (nCommon - ?m) (nCommon - ?m))"
    using c n inA inB by (intro formatCommon_range) auto
  show ?thesis
    unfolding foundSubsequenceNoExpand_def
    by (simp add: Let_def m fc commonLines_length del: min_less_iff_conj)
qed

section \<open>The items of a pass and the indices they consume\<close>

lemma upto_append: "lo \<le> mid \<Longrightarrow> mid \<le> hi \<Longrightarrow> [lo..mid - 1] @ [mid..hi - 1] = [lo..hi - 1]"
proof (cases "mid \<le> hi - 1")
  case True
  assume "lo \<le> mid" "mid \<le> hi"
  then show ?thesis using True upto_split1[of lo mid "hi - 1"] by simp
next
  case False
  assume "lo \<le> mid" "mid \<le> hi"
  with False have "mid = hi" by simp
  then show ?thesis by simp
qed

lemma upto_offset: "map (\<lambda>k. a + k) [0..n - 1] = [a..a + n - 1]"
  by (rule nth_equalityI) simp_all

lemma deleteCount_append: "deleteCount (xs @ ys) = deleteCount xs + deleteCount ys"
  by (induction xs rule: deleteCount.induct) simp_all

lemma insertCount_append: "insertCount (xs @ ys) = insertCount xs + insertCount ys"
  by (induction xs rule: insertCount.induct) simp_all

lemma aIndices_append: "aIndices (xs @ ys) = aIndices xs @ aIndices ys"
  by (induction xs rule: aIndices.induct) simp_all

lemma bIndices_append: "bIndices (xs @ ys) = bIndices xs @ bIndices ys"
  by (induction xs rule: bIndices.induct) simp_all

lemma items_Delete:
  "deleteCount (map Delete xs) = int (length xs)" "insertCount (map Delete xs) = 0"
  "aIndices (map Delete xs) = xs" "bIndices (map Delete xs) = []"
  by (induction xs) simp_all

lemma items_Insert:
  "deleteCount (map Insert xs) = 0" "insertCount (map Insert xs) = int (length xs)"
  "aIndices (map Insert xs) = []" "bIndices (map Insert xs) = xs"
  by (induction xs) simp_all

lemma items_Common:
  "deleteCount (map (\<lambda>k. Common (f k) (g k)) xs) = 0"
  "insertCount (map (\<lambda>k. Common (f k) (g k)) xs) = 0"
  "aIndices (map (\<lambda>k. Common (f k) (g k)) xs) = map f xs"
  "bIndices (map (\<lambda>k. Common (f k) (g k)) xs) = map g xs"
  by (induction xs) simp_all

lemmas items_simps = deleteCount_append insertCount_append aIndices_append bIndices_append
  items_Delete items_Insert items_Common

lemma validRuns_le: "validRuns aPrev bPrev lenA lenB runs \<Longrightarrow> aPrev \<le> lenA \<and> bPrev \<le> lenB"
  by (induction aPrev bPrev lenA lenB runs rule: validRuns.induct) auto

lemma validRuns_end:
  "validRuns aPrev bPrev lenA lenB runs \<Longrightarrow>
   aPrev \<le> endA aPrev runs \<and> endA aPrev runs \<le> lenA \<and> bPrev \<le> endB bPrev runs \<and> endB bPrev runs \<le> lenB"
  by (induction aPrev bPrev lenA lenB runs rule: validRuns.induct) auto

lemma runItems_aIndices:
  "validRuns aPrev bPrev lenA lenB runs \<Longrightarrow>
   aIndices (runItems aPrev bPrev runs) = [aPrev..endA aPrev runs - 1]"
proof (induction aPrev bPrev lenA lenB runs rule: validRuns.induct)
  case (1 aPrev bPrev lenA lenB)
  then show ?case by simp
next
  case (2 aPrev bPrev lenA lenB n a b rs)
  then have v: "validRuns (a + n) (b + n) lenA lenB rs" and le: "aPrev \<le> a" "0 < n" by auto
  have e: "a + n \<le> endA (a + n) rs" using validRuns_end[OF v] by simp
  have "aIndices (runItems aPrev bPrev ((n, a, b) # rs))
        = [aPrev..a - 1] @ [a..a + n - 1] @ [a + n..endA (a + n) rs - 1]"
    using "2.IH"[OF v] by (simp add: items_simps upto_offset)
  also have "\<dots> = [aPrev..endA (a + n) rs - 1]"
    using le e upto_append[of a "a + n" "endA (a + n) rs"]
      upto_append[of aPrev a "endA (a + n) rs"] by simp
  finally show ?case by simp
qed

lemma runItems_bIndices:
  "validRuns aPrev bPrev lenA lenB runs \<Longrightarrow>
   bIndices (runItems aPrev bPrev runs) = [bPrev..endB bPrev runs - 1]"
proof (induction aPrev bPrev lenA lenB runs rule: validRuns.induct)
  case (1 aPrev bPrev lenA lenB)
  then show ?case by simp
next
  case (2 aPrev bPrev lenA lenB n a b rs)
  then have v: "validRuns (a + n) (b + n) lenA lenB rs" and le: "bPrev \<le> b" "0 < n" by auto
  have e: "b + n \<le> endB (b + n) rs" using validRuns_end[OF v] by simp
  have "bIndices (runItems aPrev bPrev ((n, a, b) # rs))
        = [bPrev..b - 1] @ [b..b + n - 1] @ [b + n..endB (b + n) rs - 1]"
    using "2.IH"[OF v] by (simp add: items_simps upto_offset)
  also have "\<dots> = [bPrev..endB (b + n) rs - 1]"
    using le e upto_append[of b "b + n" "endB (b + n) rs"]
      upto_append[of bPrev b "endB (b + n) rs"] by simp
  finally show ?case by simp
qed

lemma passItems_indices:
  assumes "validRuns 0 0 lenA lenB runs"
  shows "aIndices (passItems lenA lenB runs) = [0..lenA - 1]"
    and "bIndices (passItems lenA lenB runs) = [0..lenB - 1]"
  using validRuns_end[OF assms] runItems_aIndices[OF assms] runItems_bIndices[OF assms]
    upto_append[of 0 "endA 0 runs" lenA] upto_append[of 0 "endB 0 runs" lenB]
  by (simp_all add: passItems_def items_simps)

section \<open>The expanded pass emits the items of the pass\<close>

lemmas render_simps = deleteLines_def insertLines_def commonLines_def o_def

lemma expand_step:
  assumes n: "0 \<le> n"
    and prev: "0 \<le> aStartX se" "aStartX se \<le> a" "0 \<le> bStartX se" "bStartX se \<le> b"
    and inA: "a + n \<le> arrayLength aLinesUn" "arrayLength aLinesIn = arrayLength aLinesUn"
    and inB: "b + n \<le> arrayLength bLinesUn" "arrayLength bLinesIn = arrayLength bLinesUn"
  shows "foundSubsequenceExpand ch aLinesUn bLinesUn aLinesIn bLinesIn options se (n, a, b) =
     Some \<lparr>arrayX = arrayX se
              @ map (renderItem ch aLinesUn bLinesUn aLinesIn bLinesIn options)
                  (map Delete [aStartX se..a - 1] @ map Insert [bStartX se..b - 1]
                     @ map (\<lambda>k. Common (a + k) (b + k)) [0..n - 1]),
           changeCountsX = \<lparr>count_a = count_a (changeCountsX se) + (a - aStartX se),
                              count_b = count_b (changeCountsX se) + (b - bStartX se)\<rparr>,
           aStartX = a + n, bStartX = b + n\<rparr>"
proof -
  have d: "formatDelete ch (aStartX se) a aLinesUn aLinesIn options
           = Some (deleteLines ch aLinesUn aLinesIn options (aStartX se) a)"
    using n prev inA by (intro formatDelete_range) auto
  have i: "formatInsert ch (bStartX se) b bLinesUn bLinesIn options
           = Some (insertLines ch bLinesUn bLinesIn options (bStartX se) b)"
    using n prev inB by (intro formatInsert_range) auto
  have fc: "formatCommon ch n a b aLinesIn bLinesUn bLinesIn options
      = Some (commonLines ch aLinesIn bLinesUn bLinesIn options n a b)"
    using n prev inA inB by (intro formatCommon_range) auto
  show ?thesis
    unfolding foundSubsequenceExpand_def
    by (simp add: d i fc render_simps)
qed

lemma forEachRun_expand:
  assumes "validRuns (aStartX se) (bStartX se) (arrayLength aLinesUn) (arrayLength bLinesUn) runs"
    and "0 \<le> aStartX se" "0 \<le> bStartX se"
    and "arrayLength aLinesIn = arrayLength aLinesUn" "arrayLength bLinesIn = arrayLength bLinesUn"
  shows "forEachRun (foundSubsequenceExpand ch aLinesUn bLinesUn aLinesIn bLinesIn options) se runs =
     Some \<lparr>arrayX = arrayX se
              @ map (renderItem ch aLinesUn bLinesUn aLinesIn bLinesIn options)
                  (runItems (aStartX se) (bStartX se) runs),
           changeCountsX =
             \<lparr>count_a = count_a (changeCountsX se)
                          + deleteCount (runItems (aStartX se) (bStartX se) runs),
              count_b = count_b (changeCountsX se)
                          + insertCount (runItems (aStartX se) (bStartX se) runs)\<rparr>,
           aStartX = endA (aStartX se) runs, bStartX = endB (bStartX se) runs\<rparr>"
  using assms
proof (induction runs arbitrary: se)
  case Nil
  then show ?case by simp
next
  case (Cons r rs)
  obtain n a b where r: "r = (n, a, b)" by (cases r)
  from Cons.prems r have v: "validRuns (a + n) (b + n) (arrayLength aLinesUn) (arrayLength bLinesUn) rs"
    and le: "0 < n" "aStartX se \<le> a" "bStartX se \<le> b" by auto
  from validRuns_le[OF v] have inr: "a + n \<le> arrayLength aLinesUn" "b + n \<le> arrayLength bLinesUn"
    by auto
  let ?se = "\<lparr>arrayX = arrayX se
              @ map (renderItem ch aLinesUn bLinesUn aLinesIn bLinesIn options)
                  (map Delete [aStartX se..a - 1] @ map Insert [bStartX se..b - 1]
                     @ map (\<lambda>k. Common (a + k) (b + k)) [0..n - 1]),
           changeCountsX = \<lparr>count_a = count_a (changeCountsX se) + (a - aStartX se),
                              count_b = count_b (changeCountsX se) + (b - bStartX se)\<rparr>,
           aStartX = a + n, bStartX = b + n\<rparr>"
  have st: "foundSubsequenceExpand ch aLinesUn bLinesUn aLinesIn bLinesIn options se (n, a, b) = Some ?se"
    using le inr Cons.prems by (intro expand_step) auto
  have ih: "forEachRun (foundSubsequenceExpand ch aLinesUn bLinesUn aLinesIn bLinesIn options) ?se rs
     = Some \<lparr>arrayX = arrayX ?se
              @ map (renderItem ch aLinesUn bLinesUn aLinesIn bLinesIn options)
                  (runItems (aStartX ?se) (bStartX ?se) rs),
           changeCountsX =
             \<lparr>count_a = count_a (changeCountsX ?se)
                          + deleteCount (runItems (aStartX ?se) (bStartX ?se) rs),
              count_b = count_b (changeCountsX ?se)
                          + insertCount (runItems (aStartX ?se) (bStartX ?se) rs)\<rparr>,
           aStartX = endA (aStartX ?se) rs, bStartX = endB (bStartX ?se) rs\<rparr>"
    using v le Cons.prems by (intro Cons.IH) auto
  have cnt: "int (length [aStartX se..a - 1]) = a - aStartX se"
      "int (length [bStartX se..b - 1]) = b - bStartX se"
    using le by simp_all
  show ?case
    unfolding r using st ih cnt by (simp add: items_simps)
qed

lemma diffExpand_items:
  assumes "validRuns 0 0 (arrayLength aLinesUn) (arrayLength bLinesUn)
             (diff env (arrayLength aLinesUn) (arrayLength bLinesUn) (isCommon aLinesUn bLinesUn))"
    and "arrayLength aLinesIn = arrayLength aLinesUn" "arrayLength bLinesIn = arrayLength bLinesUn"
  shows "diffExpand env aLinesUn bLinesUn aLinesIn bLinesIn options =
     (let items = passItems (arrayLength aLinesUn) (arrayLength bLinesUn)
                    (diff env (arrayLength aLinesUn) (arrayLength bLinesUn)
                       (isCommon aLinesUn bLinesUn))
      in Some (printAnnotation env options
                 \<lparr>count_a = deleteCount items, count_b = insertCount items\<rparr>
               @ join (map (renderItem (chalk env) aLinesUn bLinesUn aLinesIn bLinesIn options)
                         items)))"
proof -
  let ?runs = "diff env (arrayLength aLinesUn) (arrayLength bLinesUn) (isCommon aLinesUn bLinesUn)"
  let ?s0 = "\<lparr>arrayX = [], changeCountsX = \<lparr>count_a = 0, count_b = 0\<rparr>,
                  aStartX = 0, bStartX = 0\<rparr>"
  have f: "forEachRun (foundSubsequenceExpand (chalk env) aLinesUn bLinesUn aLinesIn bLinesIn options)
             ?s0 ?runs
       = Some \<lparr>arrayX = map (renderItem (chalk env) aLinesUn bLinesUn aLinesIn bLinesIn options)
                  (runItems 0 0 ?runs),
           changeCountsX =
             \<lparr>count_a = deleteCount (runItems 0 0 ?runs),
              count_b = insertCount (runItems 0 0 ?runs)\<rparr>,
           aStartX = endA 0 ?runs, bStartX = endB 0 ?runs\<rparr>"
    using forEachRun_expand[of ?s0 aLinesUn bLinesUn ?runs aLinesIn bLinesIn "chalk env" options] assms
    by simp
  note e = validRuns_end[OF assms(1)]
  have d: "formatDelete (chalk env) (endA 0 ?runs) (arrayLength aLinesUn) aLinesUn aLinesIn options
           = Some (deleteLines (chalk env) aLinesUn aLinesIn options (endA 0 ?runs) (arrayLength aLinesUn))"
    using e assms by (intro formatDelete_range) auto
  have i: "formatInsert (chalk env) (endB 0 ?runs) (arrayLength bLinesUn) bLinesUn bLinesIn options
           = Some (insertLines (chalk env) bLinesUn bLinesIn options (endB 0 ?runs) (arrayLength bLinesUn))"
    using e assms by (intro formatInsert_range) auto
  have cnt: "int (length [endA 0 ?runs..arrayLength aLinesUn - 1]) = arrayLength aLinesUn - endA 0 ?runs"
      "int (length [endB 0 ?runs..arrayLength bLinesUn - 1]) = arrayLength bLinesUn - endB 0 ?runs"
    using e by simp_all
  show ?thesis
    unfolding diffExpand_def using e
    by (simp add: Let_def f d i passItems_def items_simps render_simps)
qed

section \<open>A windowed pass without truncation follows the expanded pass\<close>

lemma format_empty:
  "formatDelete ch i i aLinesUn aLinesIn options = Some []"
  "formatInsert ch i i bLinesUn bLinesIn options = Some []"
  by (simp_all add: formatDelete.simps formatInsert.simps)

lemma expand_step_end:
  "foundSubsequenceExpand ch aLinesUn bLinesUn aLinesIn bLinesIn options se (n, a, b) = Some se'
   \<Longrightarrow> aStartX se' = a + n \<and> bStartX se' = b + n"
  by (auto simp: foundSubsequenceExpand_def split: Option.bind_splits)

lemma windowed_step_simulates:
  assumes prev: "0 \<le> aStartX se" "aStartX se \<le> a" "0 \<le> bStartX se" "bStartX se \<le> b"
    and within: "n \<le> (if a = 0 \<and> b = 0 then contextLines options
                       else if a + n = arrayLength aLinesUn \<and> b + n = arrayLength bLinesUn
                            then contextLines options
                            else contextLines options + contextLines options)"
  shows "foundSubsequenceNoExpand env aLinesUn bLinesUn aLinesIn bLinesIn options
           (windowOf se atEnd) (n, a, b)
       = map_option (\<lambda>se'. windowOf se' (a + n = arrayLength aLinesUn \<and> b + n = arrayLength bLinesUn))
           (foundSubsequenceExpand (chalk env) aLinesUn bLinesUn aLinesIn bLinesIn options se (n, a, b))"
proof (cases "a = 0 \<and> b = 0")
  case True
  with prev have z: "aStartX se = 0" "bStartX se = 0" by auto
  from True within have nl: "(contextLines options < n) = False" by simp
  show ?thesis
    unfolding foundSubsequenceNoExpand_def foundSubsequenceExpand_def
    by (simp only: Let_def prod.case True simp_thms if_True nl if_False)
       (cases "formatCommon (chalk env) n 0 0 aLinesIn bLinesUn bLinesIn options";
        simp add: z format_empty windowOf_def)
next
  case False
  then have ns: "(a = 0 \<and> b = 0) = False" by simp
  show ?thesis
  proof (cases "a + n = arrayLength aLinesUn \<and> b + n = arrayLength bLinesUn")
    case True
    with within ns have le: "n \<le> contextLines options" by simp
    show ?thesis
      unfolding foundSubsequenceNoExpand_def foundSubsequenceExpand_def
      by (simp only: Let_def prod.case ns if_False True if_True)
         (cases "formatDelete (chalk env) (aStartX se) a aLinesUn aLinesIn options";
          cases "formatInsert (chalk env) (bStartX se) b bLinesUn bLinesIn options";
          cases "formatCommon (chalk env) n a b aLinesIn bLinesUn bLinesIn options";
          simp add: windowOf_def le True)
  next
    case atEnd: False
    with within ns have le: "n \<le> 2 * contextLines options" by (auto split: if_splits)
    show ?thesis
      unfolding foundSubsequenceNoExpand_def foundSubsequenceExpand_def
      by (simp only: Let_def prod.case ns if_False atEnd)
         (cases "formatDelete (chalk env) (aStartX se) a aLinesUn aLinesIn options";
          cases "formatInsert (chalk env) (bStartX se) b bLinesUn bLinesIn options";
          cases "formatCommon (chalk env) n a b aLinesIn bLinesUn bLinesIn options";
          simp add: windowOf_def le atEnd)
  qed
qed

lemma windowed_fold_simulates:
  assumes "validRuns (aStartX se) (bStartX se) (arrayLength aLinesUn) (arrayLength bLinesUn) runs"
    and "noTruncation (contextLines options) (arrayLength aLinesUn) (arrayLength bLinesUn) runs"
    and "0 \<le> aStartX se" "0 \<le> bStartX se"
  shows "forEachRun (foundSubsequenceNoExpand env aLinesUn bLinesUn aLinesIn bLinesIn options)
           (windowOf se atEnd) runs
       = map_option
           (\<lambda>se'. windowOf se' (atEndAfter atEnd (arrayLength aLinesUn) (arrayLength bLinesUn) runs))
           (forEachRun (foundSubsequenceExpand (chalk env) aLinesUn bLinesUn aLinesIn bLinesIn options)
              se runs)"
  using assms
proof (induction runs arbitrary: se atEnd)
  case Nil
  then show ?case by simp
next
  case (Cons r rs)
  obtain n a b where r: "r = (n, a, b)" by (cases r)
  from Cons.prems r have v: "validRuns (a + n) (b + n) (arrayLength aLinesUn) (arrayLength bLinesUn) rs"
    and le: "0 < n" "aStartX se \<le> a" "bStartX se \<le> b"
    and nt: "noTruncation (contextLines options) (arrayLength aLinesUn) (arrayLength bLinesUn) rs"
    and within: "n \<le> (if a = 0 \<and> b = 0 then contextLines options
                       else if a + n = arrayLength aLinesUn \<and> b + n = arrayLength bLinesUn
                            then contextLines options
                            else contextLines options + contextLines options)"
    by auto
  note st = windowed_step_simulates[OF Cons.prems(3) le(2) Cons.prems(4) le(3) within, of env aLinesIn bLinesIn atEnd]
  show ?case
  proof (cases "foundSubsequenceExpand (chalk env) aLinesUn bLinesUn aLinesIn bLinesIn options se (n, a, b)")
    case None
    then show ?thesis using st r by simp
  next
    case (Some se')
    from expand_step_end[OF Some] have e: "aStartX se' = a + n" "bStartX se' = b + n" by auto
    have ih: "forEachRun (foundSubsequenceNoExpand env aLinesUn bLinesUn aLinesIn bLinesIn options)
           (windowOf se' (a + n = arrayLength aLinesUn \<and> b + n = arrayLength bLinesUn)) rs
       = map_option
           (\<lambda>se''. windowOf se'' (atEndAfter (a + n = arrayLength aLinesUn \<and> b + n = arrayLength bLinesUn)
                      (arrayLength aLinesUn) (arrayLength bLinesUn) rs))
           (forEachRun (foundSubsequenceExpand (chalk env) aLinesUn bLinesUn aLinesIn bLinesIn options)
              se' rs)"
      using v nt le Cons.prems e by (intro Cons.IH) auto
    show ?thesis using st r Some ih by simp
  qed
qed

lemma atEndAfter_end:
  "validRuns aPrev bPrev lenA lenB runs \<Longrightarrow> (atEnd \<longrightarrow> aPrev = lenA \<and> bPrev = lenB) \<Longrightarrow>
   atEndAfter atEnd lenA lenB runs \<Longrightarrow> endA aPrev runs = lenA \<and> endB bPrev runs = lenB"
  by (induction aPrev bPrev lenA lenB runs arbitrary: atEnd rule: validRuns.induct) auto

lemma forEachRun_expand_end:
  "forEachRun (foundSubsequenceExpand ch aLinesUn bLinesUn aLinesIn bLinesIn options) se runs = Some se'
   \<Longrightarrow> aStartX se' = endA (aStartX se) runs \<and> bStartX se' = endB (bStartX se) runs"
proof (induction runs arbitrary: se)
  case Nil
  then show ?case by simp
next
  case (Cons r rs)
  obtain n a b where r: "r = (n, a, b)" by (cases r)
  from Cons.prems r obtain s1 where
    s1: "foundSubsequenceExpand ch aLinesUn bLinesUn aLinesIn bLinesIn options se (n, a, b) = Some s1"
    and rest: "forEachRun (foundSubsequenceExpand ch aLinesUn bLinesUn aLinesIn bLinesIn options) s1 rs = Some se'"
    by (auto split: option.splits)
  from Cons.IH[OF rest] expand_step_end[OF s1] show ?case by (simp add: r)
qed

lemma changeCounts_eta: "\<lparr>count_a = count_a r, count_b = count_b r\<rparr> = (r :: changeCounts)"
  by (cases r) simp

lemma windowed_eq_expanded:
  assumes valid: "validRuns 0 0 (arrayLength aLinesUn) (arrayLength bLinesUn)
             (diff env (arrayLength aLinesUn) (arrayLength bLinesUn) (isCommon aLinesUn bLinesUn))"
    and nt: "noTruncation (contextLines options) (arrayLength aLinesUn) (arrayLength bLinesUn)
             (diff env (arrayLength aLinesUn) (arrayLength bLinesUn) (isCommon aLinesUn bLinesUn))"
  shows "diffNoExpand env aLinesUn bLinesUn aLinesIn bLinesIn options
       = diffExpand env aLinesUn bLinesUn aLinesIn bLinesIn options"
proof -
  let ?lenA = "arrayLength aLinesUn" and ?lenB = "arrayLength bLinesUn"
  let ?runs = "diff env ?lenA ?lenB (isCommon aLinesUn bLinesUn)"
  let ?e0 = "\<lparr>arrayX = [], changeCountsX = \<lparr>count_a = 0, count_b = 0\<rparr>,
                  aStartX = 0, bStartX = 0\<rparr>"
  let ?stepE = "foundSubsequenceExpand (chalk env) aLinesUn bLinesUn aLinesIn bLinesIn options"
  let ?stepW = "foundSubsequenceNoExpand env aLinesUn bLinesUn aLinesIn bLinesIn options"
  let ?flag = "atEndAfter False ?lenA ?lenB ?runs"
  have w0: "\<lparr>iPatchMark = 0, array = [[]], isAtEnd = False,
                   changeCounts = \<lparr>count_a = 0, count_b = 0\<rparr>,
                   aStart = 0, aEnd = 0, bStart = 0, bEnd = 0\<rparr> = windowOf ?e0 False"
    by (simp add: windowOf_def)
  have sim: "forEachRun ?stepW (windowOf ?e0 False) ?runs
        = map_option (\<lambda>se'. windowOf se' ?flag) (forEachRun ?stepE ?e0 ?runs)"
    using windowed_fold_simulates[of ?e0 aLinesUn bLinesUn ?runs options env aLinesIn bLinesIn False]
      valid nt by simp
  show ?thesis
  proof (cases "forEachRun ?stepE ?e0 ?runs")
    case None
    then show ?thesis
      unfolding diffNoExpand_def diffExpand_def Let_def w0 sim by simp
  next
    case (Some se)
    from forEachRun_expand_end[OF Some]
    have e: "aStartX se = endA 0 ?runs" "bStartX se = endB 0 ?runs" by auto
    show ?thesis
    proof (cases ?flag)
      case True
      with atEndAfter_end[OF valid, of False] e
      have fin: "aStartX se = ?lenA" "bStartX se = ?lenB" by auto
      show ?thesis
        unfolding diffNoExpand_def diffExpand_def Let_def w0 sim
        by (simp add: Some True fin format_empty windowOf_def changeCounts_eta)
    next
      case False
      show ?thesis
        unfolding diffNoExpand_def diffExpand_def Let_def w0 sim
        by (cases "formatDelete (chalk env) (aStartX se) ?lenA aLinesUn aLinesIn options";
            cases "formatInsert (chalk env) (bStartX se) ?lenB bLinesUn bLinesIn options";
            simp add: Some False windowOf_def)
    qed
  qed
qed

lemma validRuns_noTruncation:
  "validRuns aPrev bPrev lenA lenB runs \<Longrightarrow> 0 \<le> aPrev \<Longrightarrow> lenA \<le> c \<Longrightarrow>
   noTruncation c lenA lenB runs"
proof (induction aPrev bPrev lenA lenB runs rule: validRuns.induct)
  case (1 aPrev bPrev lenA lenB)
  then show ?case by simp
next
  case (2 aPrev bPrev lenA lenB n a b rs)
  then have v: "validRuns (a + n) (b + n) lenA lenB rs" by simp
  from validRuns_le[OF v] "2.prems" have "n \<le> c" "0 \<le> c" by auto
  with 2 show ?case by auto
qed

section \<open>Both assemblers return on well-formed input\<close>

lemma noExpand_step_total:
  assumes c: "0 \<le> contextLines options"
    and n: "0 < n"
    and prev: "0 \<le> aEnd s" "aEnd s \<le> a" "0 \<le> bEnd s" "bEnd s \<le> b"
    and inA: "a + n \<le> arrayLength aLinesUn" "arrayLength aLinesIn = arrayLength aLinesUn"
    and inB: "b + n \<le> arrayLength bLinesUn" "arrayLength bLinesIn = arrayLength bLinesUn"
  shows "\<exists>s'. foundSubsequenceNoExpand env aLinesUn bLinesUn aLinesIn bLinesIn options s (n, a, b) = Some s'
            \<and> 0 \<le> aEnd s' \<and> aEnd s' \<le> a + n \<and> 0 \<le> bEnd s' \<and> bEnd s' \<le> b + n"
proof (cases "a = 0 \<and> b = 0")
  case True
  have "foundSubsequenceNoExpand env aLinesUn bLinesUn aLinesIn bLinesIn options s (n, 0, 0) =
     Some (s\<lparr>isAtEnd := (n = arrayLength aLinesUn \<and> n = arrayLength bLinesUn),
             aStart := n - min (contextLines options) n,
             bStart := n - min (contextLines options) n,
             array := array s @ commonLines (chalk env) aLinesIn bLinesUn bLinesIn options
                        (min (contextLines options) n)
                        (n - min (contextLines options) n)
                        (n - min (contextLines options) n),
             aEnd := n, bEnd := n\<rparr>)"
    using step_first[of options n aLinesIn bLinesUn bLinesIn env aLinesUn s] c n inA inB True
    by simp
  then show ?thesis using True n by simp
next
  case False
  show ?thesis
  proof (cases "n \<le> (if a + n = arrayLength aLinesUn \<and> b + n = arrayLength bLinesUn
                      then contextLines options else contextLines options + contextLines options)")
    case True
    from step_full[OF False True _ prev inA inB, of env] n prev
    show ?thesis by simp
  next
    case tr: False
    then have lt: "contextLines options < n" using c by (auto split: if_splits)
    from step_truncated[OF False tr c prev inA inB, of env] n prev c lt
    show ?thesis by (auto simp: Let_def)
  qed
qed

lemma forEachRun_noExpand_total:
  assumes "validRuns aPrev bPrev (arrayLength aLinesUn) (arrayLength bLinesUn) runs"
    and "0 \<le> contextLines options"
    and "0 \<le> aEnd s" "aEnd s \<le> aPrev" "0 \<le> bEnd s" "bEnd s \<le> bPrev"
    and "arrayLength aLinesIn = arrayLength aLinesUn" "arrayLength bLinesIn = arrayLength bLinesUn"
  shows "\<exists>s'. forEachRun (foundSubsequenceNoExpand env aLinesUn bLinesUn aLinesIn bLinesIn options) s runs
               = Some s'
            \<and> 0 \<le> aEnd s' \<and> aEnd s' \<le> arrayLength aLinesUn
            \<and> 0 \<le> bEnd s' \<and> bEnd s' \<le> arrayLength bLinesUn"
  using assms
proof (induction runs arbitrary: s aPrev bPrev)
  case Nil
  then show ?case by auto
next
  case (Cons r rs)
  obtain n a b where r: "r = (n, a, b)" by (cases r)
  from Cons.prems r have v: "validRuns (a + n) (b + n) (arrayLength aLinesUn) (arrayLength bLinesUn) rs"
    and le: "0 < n" "aPrev \<le> a" "bPrev \<le> b" by auto
  from validRuns_le[OF v] have inr: "a + n \<le> arrayLength aLinesUn" "b + n \<le> arrayLength bLinesUn"
    by auto
  obtain s1 where s1: "foundSubsequenceNoExpand env aLinesUn bLinesUn aLinesIn bLinesIn options s (n, a, b) = Some s1"
    and b1: "0 \<le> aEnd s1" "aEnd s1 \<le> a + n" "0 \<le> bEnd s1" "bEnd s1 \<le> b + n"
    using noExpand_step_total[of options n s a b aLinesUn aLinesIn bLinesUn bLinesIn env]
      Cons.prems le inr by auto
  from Cons.IH[OF v Cons.prems(2) b1 Cons.prems(7,8)] s1 r
  show ?case by simp
qed

lemma diffNoExpand_total:
  assumes valid: "validRuns 0 0 (arrayLength aLinesUn) (arrayLength bLinesUn)
             (diff env (arrayLength aLinesUn) (arrayLength bLinesUn) (isCommon aLinesUn bLinesUn))"
    and c: "0 \<le> contextLines options"
    and lens: "arrayLength aLinesIn = arrayLength aLinesUn" "arrayLength bLinesIn = arrayLength bLinesUn"
  shows "diffNoExpand env aLinesUn bLinesUn aLinesIn bLinesIn options \<noteq> None"
proof -
  let ?s0 = "\<lparr>iPatchMark = 0, array = [[]], isAtEnd = False,
                   changeCounts = \<lparr>count_a = 0, count_b = 0\<rparr>,
                   aStart = 0, aEnd = 0, bStart = 0, bEnd = 0\<rparr>"
  obtain s1 where s1: "forEachRun (foundSubsequenceNoExpand env aLinesUn bLinesUn aLinesIn bLinesIn options)
        ?s0 (diff env (arrayLength aLinesUn) (arrayLength bLinesUn) (isCommon aLinesUn bLinesUn)) = Some s1"
    and b1: "0 \<le> aEnd s1" "aEnd s1 \<le> arrayLength aLinesUn" "0 \<le> bEnd s1" "bEnd s1 \<le> arrayLength bLinesUn"
    using forEachRun_noExpand_total[OF valid c, of ?s0 aLinesIn bLinesIn env] lens by auto
  have d: "formatDelete (chalk env) (aEnd s1) (arrayLength aLinesUn) aLinesUn aLinesIn options
           = Some (deleteLines (chalk env) aLinesUn aLinesIn options (aEnd s1) (arrayLength aLinesUn))"
    using b1 lens by (intro formatDelete_range) auto
  have i: "formatInsert (chalk env) (bEnd s1) (arrayLength bLinesUn) bLinesUn bLinesIn options
           = Some (insertLines (chalk env) bLinesUn bLinesIn options (bEnd s1) (arrayLength bLinesUn))"
    using b1 lens by (intro formatInsert_range) auto
  show ?thesis
    unfolding diffNoExpand_def by (simp add: Let_def s1 d i)
qed

lemma diffExpand_total:
  assumes valid: "validRuns 0 0 (arrayLength aLinesUn) (arrayLength bLinesUn)
             (diff env (arrayLength aLinesUn) (arrayLength bLinesUn) (isCommon aLinesUn bLinesUn))"
    and lens: "arrayLength aLinesIn = arrayLength aLinesUn" "arrayLength bLinesIn = arrayLength bLinesUn"
  shows "diffExpand env aLinesUn bLinesUn aLinesIn bLinesIn options \<noteq> None"
  using diffExpand_items[OF valid lens, of options] by (simp add: Let_def)

lemma step_keeps_patch_mark_in_array:
  assumes c: "0 \<le> contextLines options"
    and n: "0 < n"
    and prev: "0 \<le> aEnd s" "aEnd s \<le> a" "0 \<le> bEnd s" "bEnd s \<le> b"
    and inA: "a + n \<le> arrayLength aLinesUn" "arrayLength aLinesIn = arrayLength aLinesUn"
    and inB: "b + n \<le> arrayLength bLinesUn" "arrayLength bLinesIn = arrayLength bLinesUn"
    and mark: "iPatchMark s < length (array s)"
    and step: "foundSubsequenceNoExpand env aLinesUn bLinesUn aLinesIn bLinesIn options s (n, a, b)
                 = Some s'"
  shows "iPatchMark s' < length (array s')"
proof (cases "a = 0 \<and> b = 0")
  case True
  with step_first[of options n aLinesIn bLinesUn bLinesIn env aLinesUn s] c n inA inB step mark
  show ?thesis by auto
next
  case False
  show ?thesis
  proof (cases "n \<le> (if a + n = arrayLength aLinesUn \<and> b + n = arrayLength bLinesUn
                      then contextLines options else contextLines options + contextLines options)")
    case True
    from step_full[OF False True _ prev inA inB, of env] n step mark
    show ?thesis by auto
  next
    case tr: False
    from step_truncated[OF False tr c prev inA inB, of env] step mark
    show ?thesis by (auto simp: Let_def setAt_length split: if_splits)
  qed
qed

section \<open>Evaluation of the examples\<close>

lemmas demo3_simps = demoFooA_def demoFooB_def

lemmas demo2_simps = demoC_def demoD_def demoInA_def demoUnB_def demoInB_def

lemmas demo_simps = demoChalk_def demoOptions_def demoEnv_def demoA_def demoB_def demoState_def
  demoDigit_def arrayLength_def

lemmas line_simps = deleteLines_def insertLines_def commonLines_def deleteLine_def insertLine_def
  commonLine_def slice_def getHighlightSpaces_def highlightTrailingSpaces_def
  highlightLeadingTrailingSpaces_def replace_def execLeadingOddSpace_def leadingLast_def
  isSpace_def isDigit_def digitValue_def capture_def fgIndent_def bgCommon_def bgInverse_def
  Let_def upto.simps

section \<open>Claims about one step of the windowed assembler\<close>

text \<open>
  C1. In windowed mode with \<open>contextLines = c\<close>, a common run that does not start at
  index 0 on both sides is emitted in full within the current window if and only if its
  length is at most \<open>c\<close> when it is the final run (it ends at both sequence ends) and at
  most \<open>2c\<close> when it is an internal run. Emitted in full means: the pending deletions and
  insertions and all lines of the run are appended, and the patch-mark index, the
  placeholder and the window start are left as they were, so no patch mark separates
  the surrounding changes.
\<close>

theorem run_in_full_iff_within_bound:
  assumes notStart: "\<not> (a = 0 \<and> b = 0)"
    and c: "0 \<le> contextLines options"
    and n: "0 \<le> n"
    and prev: "0 \<le> aEnd s" "aEnd s \<le> a" "0 \<le> bEnd s" "bEnd s \<le> b"
    and inA: "a + n \<le> arrayLength aLinesUn" "arrayLength aLinesIn = arrayLength aLinesUn"
    and inB: "b + n \<le> arrayLength bLinesUn" "arrayLength bLinesIn = arrayLength bLinesUn"
    and mark: "iPatchMark s < length (array s)"
  shows "(n \<le> (if a + n = arrayLength aLinesUn \<and> b + n = arrayLength bLinesUn
                 then contextLines options else contextLines options + contextLines options))
     = (foundSubsequenceNoExpand env aLinesUn bLinesUn aLinesIn bLinesIn options s (n, a, b) =
        Some (s\<lparr>isAtEnd := (a + n = arrayLength aLinesUn \<and> b + n = arrayLength bLinesUn),
                changeCounts := \<lparr>count_a = count_a (changeCounts s) + (a - aEnd s),
                                  count_b = count_b (changeCounts s) + (b - bEnd s)\<rparr>,
                array := array s
                           @ deleteLines (chalk env) aLinesUn aLinesIn options (aEnd s) a
                           @ insertLines (chalk env) bLinesUn bLinesIn options (bEnd s) b
                           @ commonLines (chalk env) aLinesIn bLinesUn bLinesIn options n a b,
                aEnd := a + n, bEnd := b + n\<rparr>))"
    (is "?within = (?step = Some ?full)")
proof (cases ?within)
  case True
  then show ?thesis
    using step_full[OF notStart _ n prev inA inB, of options env] by simp
next
  case False
  let ?c = "contextLines options"
  note tr = step_truncated[OF notStart False c prev inA inB, of env]
  have "?step \<noteq> Some ?full"
  proof (cases "a + n = arrayLength aLinesUn \<and> b + n = arrayLength bLinesUn")
    case True
    with False have lt: "?c < n" by simp
    show ?thesis
    proof
      assume eq: "?step = Some ?full"
      from tr True have "aEnd (the ?step) = a + ?c" by (simp add: Let_def)
      moreover from eq have "aEnd (the ?step) = a + n" by simp
      ultimately show False using lt by simp
    qed
  next
    case atEnd: False
    show ?thesis
    proof
      assume eq: "?step = Some ?full"
      from tr atEnd have "iPatchMark (the ?step) \<ge> length (array s)"
        using mark by (simp add: Let_def setAt_length)
      moreover from eq have "iPatchMark (the ?step) = iPatchMark s" by simp
      ultimately show False using mark by simp
    qed
  qed
  with False show ?thesis by simp
qed

theorem run_in_full_iff_within_bound_witness:
  "foundSubsequenceNoExpand (demoEnv []) demoA demoB demoA demoB (demoOptions 2 False)
     demoState (3, 1, 1) =
   Some \<lparr>iPatchMark = 0,
         array = [[], ''<green>- x</green>'', ''<red>+ X</red>'',
                  ''<dim>  k1</dim>'', ''<dim>  k2</dim>'', ''<dim>  k3</dim>''],
         isAtEnd = False, changeCounts = \<lparr>count_a = 1, count_b = 1\<rparr>,
         aStart = 0, aEnd = 4, bStart = 0, bEnd = 4\<rparr>"
proof -
  have "(3 \<le> (if 1 + 3 = arrayLength demoA \<and> 1 + 3 = arrayLength demoB
                 then contextLines (demoOptions 2 False)
                 else contextLines (demoOptions 2 False) + contextLines (demoOptions 2 False)))
     = (foundSubsequenceNoExpand (demoEnv []) demoA demoB demoA demoB (demoOptions 2 False)
          demoState (3, 1, 1) =
        Some (demoState\<lparr>isAtEnd := (1 + 3 = arrayLength demoA \<and> 1 + 3 = arrayLength demoB),
                changeCounts := \<lparr>count_a = count_a (changeCounts demoState) + (1 - aEnd demoState),
                                  count_b = count_b (changeCounts demoState) + (1 - bEnd demoState)\<rparr>,
                array := array demoState
                           @ deleteLines (chalk (demoEnv [])) demoA demoA (demoOptions 2 False) (aEnd demoState) 1
                           @ insertLines (chalk (demoEnv [])) demoB demoB (demoOptions 2 False) (bEnd demoState) 1
                           @ commonLines (chalk (demoEnv [])) demoA demoB demoB (demoOptions 2 False) 3 1 1,
                aEnd := 1 + 3, bEnd := 1 + 3\<rparr>))"
    by (rule run_in_full_iff_within_bound) (simp_all add: demo_simps)
  then show ?thesis
    by (simp add: demo_simps line_simps)
qed

text \<open>
  C2. In windowed mode with \<open>contextLines = c\<close>, for a common run longer than its bound
  (\<open>c\<close> for the final run, \<open>2c\<close> for an internal run): after the pending deletions and
  insertions exactly the first \<open>c\<close> lines of the run are appended, the placeholder at the
  patch-mark index is replaced by \<open>createPatchMark (aStart, aEnd, bStart, bEnd)\<close> with
  \<open>aEnd\<close> and \<open>bEnd\<close> advanced over these \<open>c\<close> lines, and, if and only if the run does
  not reach the end of both sequences, a new placeholder is appended and a new window
  starts at the run's last \<open>min c n\<close> lines, which are appended as its leading context.
\<close>

theorem truncated_run_closes_window:
  assumes notStart: "\<not> (a = 0 \<and> b = 0)"
    and bound: "\<not> n \<le> (if a + n = arrayLength aLinesUn \<and> b + n = arrayLength bLinesUn
                      then contextLines options else contextLines options + contextLines options)"
    and c: "0 \<le> contextLines options"
    and prev: "0 \<le> aEnd s" "aEnd s \<le> a" "0 \<le> bEnd s" "bEnd s \<le> b"
    and inA: "a + n \<le> arrayLength aLinesUn" "arrayLength aLinesIn = arrayLength aLinesUn"
    and inB: "b + n \<le> arrayLength bLinesUn" "arrayLength bLinesIn = arrayLength bLinesUn"
  shows "foundSubsequenceNoExpand env aLinesUn bLinesUn aLinesIn bLinesIn options s (n, a, b) =
     (let c = contextLines options;
          closed = setAt (array s
                        @ deleteLines (chalk env) aLinesUn aLinesIn options (aEnd s) a
                        @ insertLines (chalk env) bLinesUn bLinesIn options (bEnd s) b
                        @ commonLines (chalk env) aLinesIn bLinesUn bLinesIn options c a b)
                     (iPatchMark s)
                     (createPatchMark env (aStart s) (a + c) (bStart s) (b + c) options);
          counts = \<lparr>count_a = count_a (changeCounts s) + (a - aEnd s),
                    count_b = count_b (changeCounts s) + (b - bEnd s)\<rparr>
      in if a + n = arrayLength aLinesUn \<and> b + n = arrayLength bLinesUn
         then Some (s\<lparr>isAtEnd := True, changeCounts := counts, array := closed,
                      aEnd := a + c, bEnd := b + c\<rparr>)
         else Some (s\<lparr>iPatchMark := length closed, isAtEnd := False, changeCounts := counts,
                      array := closed @ [] # commonLines (chalk env) aLinesIn bLinesUn bLinesIn
                                 options (min c n) (a + n - min c n) (b + n - min c n),
                      aStart := a + n - min c n, bStart := b + n - min c n,
                      aEnd := a + n, bEnd := b + n\<rparr>))"
  using assms by (rule step_truncated)


theorem truncated_run_closes_window_witness:
  "foundSubsequenceNoExpand (demoEnv []) demoA demoB demoA demoB (demoOptions 1 False)
     demoState (3, 1, 1) =
   Some \<lparr>iPatchMark = 4,
         array = [''@@ -1,2 +1,2 @@'', ''<green>- x</green>'', ''<red>+ X</red>'',
                  ''<dim>  k1</dim>'', [], ''<dim>  k3</dim>''],
         isAtEnd = False, changeCounts = \<lparr>count_a = 1, count_b = 1\<rparr>,
         aStart = 3, aEnd = 4, bStart = 3, bEnd = 4\<rparr>"
proof -
  have "\<not> (3::int) \<le> (if 1 + 3 = arrayLength demoA \<and> 1 + 3 = arrayLength demoB
                 then contextLines (demoOptions 1 False)
                 else contextLines (demoOptions 1 False) + contextLines (demoOptions 1 False))"
    by (simp add: demo_simps)
  then show ?thesis
    by (subst truncated_run_closes_window) (simp_all add: demo_simps line_simps setAt_def)
qed

text \<open>
  C3. In windowed mode with \<open>contextLines = c\<close>, for a common run that starts at index 0
  on both sides exactly the last \<open>min c n\<close> lines of the run are appended as the leading
  context of the first window, and the window's start indices are set to the run's end
  minus \<open>min c n\<close> on both sides; the change counts are not touched.
\<close>

theorem first_run_at_start:
  assumes c: "0 \<le> contextLines options"
    and n: "0 \<le> nCommon"
    and inA: "nCommon \<le> arrayLength aLinesIn"
    and inB: "nCommon \<le> arrayLength bLinesUn" "nCommon \<le> arrayLength bLinesIn"
  shows "foundSubsequenceNoExpand env aLinesUn bLinesUn aLinesIn bLinesIn options s (nCommon, 0, 0) =
     Some (s\<lparr>isAtEnd := (nCommon = arrayLength aLinesUn \<and> nCommon = arrayLength bLinesUn),
             aStart := nCommon - min (contextLines options) nCommon,
             bStart := nCommon - min (contextLines options) nCommon,
             array := array s @ commonLines (chalk env) aLinesIn bLinesUn bLinesIn options
                        (min (contextLines options) nCommon)
                        (nCommon - min (contextLines options) nCommon)
                        (nCommon - min (contextLines options) nCommon),
             aEnd := nCommon, bEnd := nCommon\<rparr>)
     \<and> length (commonLines (chalk env) aLinesIn bLinesUn bLinesIn options
                        (min (contextLines options) nCommon)
                        (nCommon - min (contextLines options) nCommon)
                        (nCommon - min (contextLines options) nCommon))
         = nat (min (contextLines options) nCommon)"
  using assms by (rule step_first)

theorem first_run_at_start_witness:
  "foundSubsequenceNoExpand (demoEnv []) demoC demoD demoC demoD (demoOptions 1 False)
     demoState (3, 0, 0) =
   Some \<lparr>iPatchMark = 0, array = [[], ''<dim>  k3</dim>''],
         isAtEnd = False, changeCounts = \<lparr>count_a = 0, count_b = 0\<rparr>,
         aStart = 2, aEnd = 3, bStart = 2, bEnd = 3\<rparr>"
  using first_run_at_start[of "demoOptions 1 False" 3 demoC demoD demoD "demoEnv []" demoC demoState]
  by (simp add: demo_simps demo2_simps line_simps)

section \<open>Claims about the range formatters\<close>

text \<open>
  C7. For every common index pair that \<open>formatCommon\<close> formats, the indentation shown is
  the prefix of the indentation-preserving line of side B, and the line is decorated
  with the common colour and the same-indentation background when the
  indentation-preserving lines of side A and side B have the same length, and with the
  indentation-differs foreground and the inverse background otherwise.
\<close>

theorem formatCommon_indentation_and_colors:
  assumes "0 \<le> n" "0 \<le> a" "0 \<le> b"
    and "a + n \<le> arrayLength aLinesIn"
    and "b + n \<le> arrayLength bLinesUn" "b + n \<le> arrayLength bLinesIn"
  shows "formatCommon ch n a b aLinesIn bLinesUn bLinesIn options =
     Some (map (\<lambda>k.
        let aLineIn = elems aLinesIn ! nat (a + k);
            bLineUn = elems bLinesUn ! nat (b + k);
            bLineIn = elems bLinesIn ! nat (b + k);
            indentation = slice bLineIn 0 (int (length bLineIn) - int (length bLineUn));
            highlightSpaces = getHighlightSpaces (arrayId bLinesUn \<noteq> arrayId bLinesIn)
        in if length aLineIn = length bLineIn
           then commonColor options
                  (commonIndicator options @ '' '' @ indentation
                     @ highlightSpaces bLineUn (bgCommon ch))
           else fgIndent ch
                  (commonIndicator options @ '' '' @ indentation
                     @ highlightSpaces bLineUn (bgInverse ch)))
        [0..n - 1])"
  using formatCommon_range[OF assms, of ch options]
  by (simp add: commonLines_def commonLine_def Let_def)


theorem formatCommon_indentation_and_colors_witness:
  "formatCommon demoChalk 2 0 0 demoInA demoUnB demoInB (demoOptions 1 False) =
     Some [''<cyan>    k1</cyan>'', ''<dim>  k2<bgYellow> </bgYellow></dim>'']"
  using formatCommon_indentation_and_colors[of 2 0 0 demoInA demoUnB demoInB demoChalk "demoOptions 1 False"]
  by (simp add: demo_simps demo2_simps line_simps)

section \<open>Claims about a full pass\<close>

text \<open>
  C5. For every pair of line sequences and options, when \<open>contextLines\<close> is the maximum
  of the two lengths, the string that \<open>diffNoExpand\<close> returns is the string that
  \<open>diffExpand\<close> returns on the same inputs (annotation included; \<open>diffExpand\<close> never writes
  a patch mark), for every oracle whose runs are in order and inside the sequences.
\<close>

theorem windowed_equals_expanded_at_max_context:
  assumes valid: "validRuns 0 0 (arrayLength aLinesUn) (arrayLength bLinesUn)
             (diff env (arrayLength aLinesUn) (arrayLength bLinesUn) (isCommon aLinesUn bLinesUn))"
    and c: "contextLines options = max (arrayLength aLinesUn) (arrayLength bLinesUn)"
  shows "diffNoExpand env aLinesUn bLinesUn aLinesIn bLinesIn options
       = diffExpand env aLinesUn bLinesUn aLinesIn bLinesIn options"
proof -
  have "noTruncation (contextLines options) (arrayLength aLinesUn) (arrayLength bLinesUn)
          (diff env (arrayLength aLinesUn) (arrayLength bLinesUn) (isCommon aLinesUn bLinesUn))"
    using valid c by (intro validRuns_noTruncation[where aPrev = 0 and bPrev = 0]) auto
  with valid show ?thesis by (rule windowed_eq_expanded)
qed

theorem windowed_equals_expanded_at_max_context_witness:
  "diffNoExpand (demoEnv [(1, 0, 0), (1, 2, 2)]) demoFooA demoFooB demoFooA demoFooB
     (demoOptions 3 False)
   = Some (''- 1 + 1'' @ [CHR 0x0A] @ ''<dim>  foo</dim>'' @ [CHR 0x0A] @ ''<green>- bar</green>''
           @ [CHR 0x0A] @ ''<red>+ BAR</red>'' @ [CHR 0x0A] @ ''<dim>  baz</dim>'')"
proof -
  have "diffNoExpand (demoEnv [(1, 0, 0), (1, 2, 2)]) demoFooA demoFooB demoFooA demoFooB
          (demoOptions 3 False)
      = diffExpand (demoEnv [(1, 0, 0), (1, 2, 2)]) demoFooA demoFooB demoFooA demoFooB
          (demoOptions 3 False)"
    by (rule windowed_equals_expanded_at_max_context) (simp_all add: demo_simps demo3_simps)
  also have "\<dots> = Some (''- 1 + 1'' @ [CHR 0x0A] @ ''<dim>  foo</dim>'' @ [CHR 0x0A] @ ''<green>- bar</green>''
           @ [CHR 0x0A] @ ''<red>+ BAR</red>'' @ [CHR 0x0A] @ ''<dim>  baz</dim>'')"
    by (subst diffExpand_items)
       (simp_all add: demo_simps demo3_simps passItems_def line_simps)
  finally show ?thesis .
qed

text \<open>
  C4. Across one full pass in expanded mode, and in windowed mode whenever no common run
  is truncated, the lines of the output are the renderings of a list of items whose
  indices of side A, read in output order over the delete and common items, are exactly
  \<open>0, \<dots>, lenA - 1\<close>, and whose indices of side B, over the insert and common items, are
  exactly \<open>0, \<dots>, lenB - 1\<close>: every index is consumed exactly once, none is skipped and
  none is emitted twice.
\<close>

theorem full_pass_covers_every_index:
  assumes valid: "validRuns 0 0 (arrayLength aLinesUn) (arrayLength bLinesUn)
             (diff env (arrayLength aLinesUn) (arrayLength bLinesUn) (isCommon aLinesUn bLinesUn))"
    and lens: "arrayLength aLinesIn = arrayLength aLinesUn" "arrayLength bLinesIn = arrayLength bLinesUn"
  shows "let runs = diff env (arrayLength aLinesUn) (arrayLength bLinesUn) (isCommon aLinesUn bLinesUn);
             items = passItems (arrayLength aLinesUn) (arrayLength bLinesUn) runs;
             output = Some (printAnnotation env options
                              \<lparr>count_a = deleteCount items, count_b = insertCount items\<rparr>
                            @ join (map (renderItem (chalk env) aLinesUn bLinesUn aLinesIn bLinesIn
                                           options) items))
         in aIndices items = [0..arrayLength aLinesUn - 1]
            \<and> bIndices items = [0..arrayLength bLinesUn - 1]
            \<and> diffExpand env aLinesUn bLinesUn aLinesIn bLinesIn options = output
            \<and> (noTruncation (contextLines options) (arrayLength aLinesUn) (arrayLength bLinesUn) runs
                 \<longrightarrow> diffNoExpand env aLinesUn bLinesUn aLinesIn bLinesIn options = output)"
  using passItems_indices[OF valid] diffExpand_items[OF valid lens, of options]
    windowed_eq_expanded[OF valid, of options aLinesIn bLinesIn]
  by (simp add: Let_def)

theorem full_pass_covers_every_index_witness:
  "aIndices (passItems 3 3 [(1, 0, 0), (1, 2, 2)]) = [0, 1, 2]
   \<and> bIndices (passItems 3 3 [(1, 0, 0), (1, 2, 2)]) = [0, 1, 2]
   \<and> passItems 3 3 [(1, 0, 0), (1, 2, 2)] = [Common 0 0, Delete 1, Insert 1, Common 2 2]
   \<and> diffExpand (demoEnv [(1, 0, 0), (1, 2, 2)]) demoFooA demoFooB demoFooA demoFooB
        (demoOptions 1 True)
      = Some (''- 1 + 1'' @ [CHR 0x0A] @ ''<dim>  foo</dim>'' @ [CHR 0x0A] @ ''<green>- bar</green>''
           @ [CHR 0x0A] @ ''<red>+ BAR</red>'' @ [CHR 0x0A] @ ''<dim>  baz</dim>'')
   \<and> diffNoExpand (demoEnv [(1, 0, 0), (1, 2, 2)]) demoFooA demoFooB demoFooA demoFooB
        (demoOptions 1 True)
      = Some (''- 1 + 1'' @ [CHR 0x0A] @ ''<dim>  foo</dim>'' @ [CHR 0x0A] @ ''<green>- bar</green>''
           @ [CHR 0x0A] @ ''<red>+ BAR</red>'' @ [CHR 0x0A] @ ''<dim>  baz</dim>'')"
proof -
  let ?R = "[(1, 0, 0), (1, 2, 2)] :: (int \<times> int \<times> int) list"
  have runs: "\<And>lenA lenB common. diff (demoEnv ?R) lenA lenB common = ?R"
    by (simp add: demoEnv_def)
  have lens: "arrayLength demoFooA = 3" "arrayLength demoFooB = 3"
    by (simp_all add: demo3_simps arrayLength_def)
  have v: "validRuns 0 0 (arrayLength demoFooA) (arrayLength demoFooB)
             (diff (demoEnv ?R) (arrayLength demoFooA) (arrayLength demoFooB)
                (isCommon demoFooA demoFooB))"
    unfolding runs lens by simp
  have nt: "noTruncation (contextLines (demoOptions 1 True)) 3 3 ?R"
    by (simp add: demoOptions_def)
  have items: "passItems 3 3 ?R = [Common 0 0, Delete 1, Insert 1, Common 2 2]"
    by (simp add: passItems_def upto.simps)
  have out: "printAnnotation (demoEnv ?R) (demoOptions 1 True)
               \<lparr>count_a = deleteCount [Common 0 0, Delete 1, Insert 1, Common 2 2],
                  count_b = insertCount [Common 0 0, Delete 1, Insert 1, Common 2 2]\<rparr>
             @ join (map (renderItem (chalk (demoEnv ?R)) demoFooA demoFooB demoFooA demoFooB
                            (demoOptions 1 True))
                       [Common 0 0, Delete 1, Insert 1, Common 2 2])
        = ''- 1 + 1'' @ [CHR 0x0A] @ ''<dim>  foo</dim>'' @ [CHR 0x0A] @ ''<green>- bar</green>''
           @ [CHR 0x0A] @ ''<red>+ BAR</red>'' @ [CHR 0x0A] @ ''<dim>  baz</dim>''"
    by (simp add: demo_simps demo3_simps line_simps)
  note t = full_pass_covers_every_index[OF v refl refl, of "demoOptions 1 True",
      unfolded Let_def runs lens items out]
  from t nt show ?thesis
    unfolding items by simp
qed

text \<open>
  C10. If the oracle reports no common run, the windowed output for any \<open>contextLines\<close> is
  the annotation for the change counts \<open>a = lenA\<close> and \<open>b = lenB\<close>, followed by the
  \<open>lenA\<close> delete lines of side A in order and then the \<open>lenB\<close> insert lines of side B in
  order; no patch mark is written.
\<close>

theorem no_common_run_all_deleted_then_inserted:
  assumes none: "diff env (arrayLength aLinesUn) (arrayLength bLinesUn) (isCommon aLinesUn bLinesUn) = []"
    and lens: "arrayLength aLinesIn = arrayLength aLinesUn" "arrayLength bLinesIn = arrayLength bLinesUn"
  shows "diffNoExpand env aLinesUn bLinesUn aLinesIn bLinesIn options =
           Some (printAnnotation env options
                   \<lparr>count_a = arrayLength aLinesUn, count_b = arrayLength bLinesUn\<rparr>
                 @ join (deleteLines (chalk env) aLinesUn aLinesIn options 0 (arrayLength aLinesUn)
                         @ insertLines (chalk env) bLinesUn bLinesIn options 0 (arrayLength bLinesUn)))
         \<and> length (deleteLines (chalk env) aLinesUn aLinesIn options 0 (arrayLength aLinesUn))
             = length (elems aLinesUn)
         \<and> length (insertLines (chalk env) bLinesUn bLinesIn options 0 (arrayLength bLinesUn))
             = length (elems bLinesUn)"
proof -
  have d: "formatDelete (chalk env) 0 (arrayLength aLinesUn) aLinesUn aLinesIn options
           = Some (deleteLines (chalk env) aLinesUn aLinesIn options 0 (arrayLength aLinesUn))"
    using lens by (intro formatDelete_range) (auto simp: arrayLength_def)
  have i: "formatInsert (chalk env) 0 (arrayLength bLinesUn) bLinesUn bLinesIn options
           = Some (insertLines (chalk env) bLinesUn bLinesIn options 0 (arrayLength bLinesUn))"
    using lens by (intro formatInsert_range) (auto simp: arrayLength_def)
  have len: "length (deleteLines (chalk env) aLinesUn aLinesIn options 0 (arrayLength aLinesUn))
             = length (elems aLinesUn)"
     "length (insertLines (chalk env) bLinesUn bLinesIn options 0 (arrayLength bLinesUn))
             = length (elems bLinesUn)"
    by (simp_all add: deleteLines_def insertLines_def arrayLength_def)
  show ?thesis
    unfolding diffNoExpand_def
    by (simp add: Let_def none d i len)
qed

theorem no_common_run_all_deleted_then_inserted_witness:
  "diffNoExpand (demoEnv []) demoFooA demoFooB demoFooA demoFooB (demoOptions 0 False)
   = Some (''- 3 + 3'' @ [CHR 0x0A] @ ''<green>- foo</green>'' @ [CHR 0x0A] @ ''<green>- bar</green>''
           @ [CHR 0x0A] @ ''<green>- baz</green>'' @ [CHR 0x0A] @ ''<red>+ foo</red>''
           @ [CHR 0x0A] @ ''<red>+ BAR</red>'' @ [CHR 0x0A] @ ''<red>+ baz</red>'')"
  using no_common_run_all_deleted_then_inserted[of "demoEnv []" demoFooA demoFooB demoFooA demoFooB
          "demoOptions 0 False"]
  by (simp add: demo_simps demo3_simps line_simps)

section \<open>Claims about the entry point\<close>

text \<open>
  C8. When an original pair is supplied and, for either side, splitting the original
  text gives a different number of lines than splitting the comparison text, the entry
  point does not fail (it returns a string), and for different inputs it calls the
  assembler with the indentation-preserving arrays in the place of the unnormalized
  ones on both sides, so that they are the basis of comparison and of display. The
  oracle is assumed to report runs in order and inside the sequences, and
  \<open>contextLines\<close> to be non-negative.
\<close>

theorem inconsistent_original_falls_back:
  assumes mismatch: "length (split a) \<noteq> length (split (original_a og))
                      \<or> length (split b) \<noteq> length (split (original_b og))"
    and valid: "validRuns 0 0
                  (arrayLength \<lparr>arrayId = 2, elems = split (original_a og)\<rparr>)
                  (arrayLength \<lparr>arrayId = 3, elems = split (original_b og)\<rparr>)
                  (diff env
                     (arrayLength \<lparr>arrayId = 2, elems = split (original_a og)\<rparr>)
                     (arrayLength \<lparr>arrayId = 3, elems = split (original_b og)\<rparr>)
                     (isCommon \<lparr>arrayId = 2, elems = split (original_a og)\<rparr>
                               \<lparr>arrayId = 3, elems = split (original_b og)\<rparr>))"
    and c: "0 \<le> contextLines options"
  shows "diffLines env a b options (Some og) \<noteq> None
     \<and> (a \<noteq> b \<longrightarrow>
          diffLines env a b options (Some og) =
            (if expand options
             then diffExpand env
                    \<lparr>arrayId = 2, elems = split (original_a og)\<rparr>
                    \<lparr>arrayId = 3, elems = split (original_b og)\<rparr>
                    \<lparr>arrayId = 2, elems = split (original_a og)\<rparr>
                    \<lparr>arrayId = 3, elems = split (original_b og)\<rparr> options
             else diffNoExpand env
                    \<lparr>arrayId = 2, elems = split (original_a og)\<rparr>
                    \<lparr>arrayId = 3, elems = split (original_b og)\<rparr>
                    \<lparr>arrayId = 2, elems = split (original_a og)\<rparr>
                    \<lparr>arrayId = 3, elems = split (original_b og)\<rparr> options))"
proof -
  let ?AI = "\<lparr>arrayId = 2, elems = split (original_a og)\<rparr>"
  let ?BI = "\<lparr>arrayId = 3, elems = split (original_b og)\<rparr>"
  have mm: "arrayLength \<lparr>arrayId = 0, elems = split a\<rparr> \<noteq> arrayLength ?AI
            \<or> arrayLength \<lparr>arrayId = 1, elems = split b\<rparr> \<noteq> arrayLength ?BI"
    using mismatch by (simp add: arrayLength_def)
  have eq: "a \<noteq> b \<Longrightarrow> diffLines env a b options (Some og) =
            (if expand options then diffExpand env ?AI ?BI ?AI ?BI options
             else diffNoExpand env ?AI ?BI ?AI ?BI options)"
    unfolding diffLines_def Let_def using mm by (simp only: option.case if_True if_False prod.case)
  have ok: "diffExpand env ?AI ?BI ?AI ?BI options \<noteq> None"
           "diffNoExpand env ?AI ?BI ?AI ?BI options \<noteq> None"
    using diffExpand_total[OF valid refl refl] diffNoExpand_total[OF valid c refl refl] by auto
  have "diffLines env a b options (Some og) \<noteq> None"
  proof (cases "a = b")
    case True
    then show ?thesis by (simp add: diffLines_def)
  next
    case False
    with eq ok show ?thesis by simp
  qed
  with eq show ?thesis by blast
qed

theorem inconsistent_original_falls_back_witness:
  "diffLines (demoEnv [(1, 0, 0)]) ''x'' ''y'' (demoOptions 1 False)
     (Some \<lparr>original_a = ''p\<newline>q'', original_b = ''p\<newline>r''\<rparr>)
   = diffNoExpand (demoEnv [(1, 0, 0)])
       \<lparr>arrayId = 2, elems = [''p'', ''q'']\<rparr> \<lparr>arrayId = 3, elems = [''p'', ''r'']\<rparr>
       \<lparr>arrayId = 2, elems = [''p'', ''q'']\<rparr> \<lparr>arrayId = 3, elems = [''p'', ''r'']\<rparr>
       (demoOptions 1 False)
   \<and> diffLines (demoEnv [(1, 0, 0)]) ''x'' ''y'' (demoOptions 1 False)
     (Some \<lparr>original_a = ''p\<newline>q'', original_b = ''p\<newline>r''\<rparr>)
   = Some (''- 1 + 1'' @ [CHR 0x0A] @ ''<dim>  p</dim>'' @ [CHR 0x0A] @ ''<green>- q</green>''
           @ [CHR 0x0A] @ ''<red>+ r</red>'')"
proof -
  let ?og = "\<lparr>original_a = ''p\<newline>q'', original_b = ''p\<newline>r''\<rparr>"
  let ?env = "demoEnv [(1, 0, 0)]"
  let ?AI = "\<lparr>arrayId = 2, elems = [''p'', ''q'']\<rparr>"
  let ?BI = "\<lparr>arrayId = 3, elems = [''p'', ''r'']\<rparr>"
  have sp: "split (original_a ?og) = [''p'', ''q'']" "split (original_b ?og) = [''p'', ''r'']"
    by simp_all
  have runs: "\<And>lenA lenB common. diff ?env lenA lenB common = [(1, 0, 0)]"
    by (simp add: demoEnv_def)
  have 1: "length (split ''x'') \<noteq> length (split (original_a ?og))
           \<or> length (split ''y'') \<noteq> length (split (original_b ?og))"
    by simp
  have 2: "validRuns 0 0
                  (arrayLength \<lparr>arrayId = 2, elems = split (original_a ?og)\<rparr>)
                  (arrayLength \<lparr>arrayId = 3, elems = split (original_b ?og)\<rparr>)
                  (diff ?env
                     (arrayLength \<lparr>arrayId = 2, elems = split (original_a ?og)\<rparr>)
                     (arrayLength \<lparr>arrayId = 3, elems = split (original_b ?og)\<rparr>)
                     (isCommon \<lparr>arrayId = 2, elems = split (original_a ?og)\<rparr>
                               \<lparr>arrayId = 3, elems = split (original_b ?og)\<rparr>))"
    unfolding runs sp by (simp add: arrayLength_def)
  have 3: "0 \<le> contextLines (demoOptions 1 False)"
    by (simp add: demoOptions_def)
  have ne: "''x'' \<noteq> ''y''" by simp
  have ex: "expand (demoOptions 1 False) = False" by (simp add: demoOptions_def)
  from inconsistent_original_falls_back[OF 1 2 3, unfolded sp] ne
  have fb: "diffLines ?env ''x'' ''y'' (demoOptions 1 False) (Some ?og)
            = diffNoExpand ?env ?AI ?BI ?AI ?BI (demoOptions 1 False)"
    by (simp add: ex)
  have nt: "noTruncation (contextLines (demoOptions 1 False)) (arrayLength ?AI) (arrayLength ?BI)
              (diff ?env (arrayLength ?AI) (arrayLength ?BI) (isCommon ?AI ?BI))"
    unfolding runs by (simp add: demoOptions_def arrayLength_def)
  have v: "validRuns 0 0 (arrayLength ?AI) (arrayLength ?BI)
              (diff ?env (arrayLength ?AI) (arrayLength ?BI) (isCommon ?AI ?BI))"
    unfolding runs by (simp add: arrayLength_def)
  have "diffNoExpand ?env ?AI ?BI ?AI ?BI (demoOptions 1 False)
        = diffExpand ?env ?AI ?BI ?AI ?BI (demoOptions 1 False)"
    using v nt by (rule windowed_eq_expanded)
  also have "\<dots> = Some (''- 1 + 1'' @ [CHR 0x0A] @ ''<dim>  p</dim>'' @ [CHR 0x0A] @ ''<green>- q</green>''
           @ [CHR 0x0A] @ ''<red>+ r</red>'')"
    by (subst diffExpand_items[OF v refl refl])
       (simp add: demo_simps passItems_def line_simps)
  finally show ?thesis using fb by simp
qed

text \<open>
  C9. For every string \<open>x\<close>, every options value, every original pair and every
  environment (so whatever the oracle and the assemblers would do), the entry point
  called with expected = actual = \<open>x\<close> returns the no-differences sentinel.
\<close>

theorem identical_inputs_return_sentinel:
  "diffLines env x x options orig = Some (NO_DIFF_MESSAGE env)"
  by (simp add: diffLines_def)

theorem identical_inputs_return_sentinel_witness:
  "diffLines (demoEnv [(7, 5, 5)]) ''foo\<newline>bar'' ''foo\<newline>bar'' (demoOptions 1 False) None
     = Some ''Compared values have no visual difference.''"
  using identical_inputs_return_sentinel[of "demoEnv [(7, 5, 5)]" "''foo\<newline>bar''" "demoOptions 1 False" None]
  by (simp add: demoEnv_def)

section \<open>The highlighter on an odd number of leading whitespace characters\<close>

text \<open>
  For a decoration that wraps its argument between two texts without \<open>$\<close>, and a line
  that starts with an odd number of whitespace characters and ends with a
  non-whitespace character: the leading run is replaced by group 1 and the wrapped last
  character. Group 1 is the last pair only, so a run of five or more characters comes
  out shorter.
\<close>

lemma getSubstitution_plain:
  "CHR ''$'' \<notin> set xs \<Longrightarrow> getSubstitution m (xs @ ys) = xs @ getSubstitution m ys"
proof (induction xs)
  case Nil
  then show ?case by simp
next
  case (Cons c xs)
  then have c: "c \<noteq> CHR ''$''" and ih: "getSubstitution m (xs @ ys) = xs @ getSubstitution m ys"
    by auto
  show ?case
  proof (cases "xs @ ys")
    case Nil
    then show ?thesis by simp
  next
    case (Cons d t)
    have "getSubstitution m (c # d # t) = c # getSubstitution m (d # t)"
      using c by simp
    with Cons ih show ?thesis by simp
  qed
qed

lemma getSubstitution_plain_end:
  "CHR ''$'' \<notin> set xs \<Longrightarrow> getSubstitution m xs = xs"
  using getSubstitution_plain[of xs m "[]"] by simp

lemma execTrailingSpaces_none:
  "s \<noteq> [] \<Longrightarrow> \<not> isSpace (last s) \<Longrightarrow> execTrailingSpaces s = None"
proof (induction s)
  case Nil
  then show ?case by simp
next
  case (Cons c cs)
  show ?case
  proof (cases "cs = []")
    case True
    with Cons.prems show ?thesis by simp
  next
    case False
    with Cons.prems have l: "\<not> isSpace (last cs)" by simp
    then have "\<not> list_all isSpace cs"
      using False by (auto simp: list_all_iff)
    with Cons.IH[OF False l] show ?thesis by simp
  qed
qed

lemma leadingPairs_spaces:
  "\<forall>w \<in> set ws. isSpace w \<Longrightarrow> \<not> isSpace c \<Longrightarrow>
   leadingPairs g1 pre (ws @ c # rest) =
     (if odd (length ws)
      then Some \<lparr>leftContext = [], matched = pre @ ws, rightContext = c # rest,
                 captures = [if 3 \<le> length ws then Some (take 2 (drop (length ws - 3) ws)) else g1,
                             Some [last ws]]\<rparr>
      else None)"
proof (induction ws arbitrary: g1 pre rule: induct_list012)
  case 1
  then show ?case by (cases rest) (simp_all add: leadingLast_def)
next
  case (2 w)
  then show ?case by (simp add: leadingLast_def)
next
  case (3 w1 w2 ws)
  then have sp: "isSpace w1" "isSpace w2" "\<forall>w \<in> set ws. isSpace w" by auto
  note ih = "3.IH"(1)[OF sp(3) "3.prems"(2), of "Some [w1, w2]" "pre @ [w1, w2]"]
  show ?case
  proof (cases "odd (length ws)")
    case True
    then obtain v vs where ws: "ws = v # vs" by (cases ws) auto
    have tk: "3 \<le> length ws \<Longrightarrow> take 2 (drop (length ws - 3) ws)
                = take 2 (drop (length (w1 # w2 # ws) - 3) (w1 # w2 # ws))"
      by (simp add: Suc_diff_le numeral_3_eq_3 drop_Cons')
    have one: "\<not> 3 \<le> length ws \<Longrightarrow> ws = [v]"
    proof -
      assume "\<not> 3 \<le> length ws"
      with True have "length ws = 1" by presburger
      with ws show ?thesis by simp
    qed
    show ?thesis
    proof (cases "3 \<le> length ws")
      case big: True
      with ih True sp tk show ?thesis by (simp add: ws)
    next
      case False
      with one have "ws = [v]" by simp
      with ih sp show ?thesis by simp
    qed
  next
    case False
    with ih sp show ?thesis by (simp add: leadingLast_def)
  qed
qed

lemma highlight_odd_leading:
  assumes ws: "\<forall>w \<in> set ws. isSpace w" "odd (length ws)"
    and c: "\<not> isSpace c" "\<not> isSpace (last (c # rest))"
    and bg: "bgColor ''$2'' = opn @ ''$2'' @ cls" "CHR ''$'' \<notin> set opn" "CHR ''$'' \<notin> set cls"
  shows "highlightLeadingTrailingSpaces (ws @ c # rest) bgColor =
           (if 3 \<le> length ws then take 2 (drop (length ws - 3) ws) else [])
             @ opn @ [last ws] @ cls @ c # rest"
proof -
  have "last (ws @ c # rest) = last (c # rest)" by simp
  then have tr: "highlightTrailingSpaces (ws @ c # rest) bgColor = ws @ c # rest"
    using execTrailingSpaces_none[of "ws @ c # rest"] c(2)
    by (simp add: highlightTrailingSpaces_def replace_def)
  let ?m = "\<lparr>leftContext = [], matched = ws, rightContext = c # rest,
                 captures = [if 3 \<le> length ws then Some (take 2 (drop (length ws - 3) ws)) else None,
                             Some [last ws]]\<rparr>"
  have ex: "execLeadingOddSpace (ws @ c # rest) = Some ?m"
    using leadingPairs_spaces[OF ws(1) c(1), of None "[]" rest] ws(2)
    by (simp add: execLeadingOddSpace_def)
  have two: "getSubstitution ?m (''$2'' @ cls) = [last ws] @ cls"
    using getSubstitution_plain_end[OF bg(3), of ?m]
    by (cases cls) (simp_all add: isDigit_def digitValue_def capture_def)
  have rest2: "getSubstitution ?m (opn @ ''$2'' @ cls) = opn @ [last ws] @ cls"
    using getSubstitution_plain[OF bg(2), of ?m "''$2'' @ cls"] two by simp
  have "getSubstitution ?m (''$1'' @ opn @ ''$2'' @ cls)
          = (if 3 \<le> length ws then take 2 (drop (length ws - 3) ws) else []) @ opn @ [last ws] @ cls"
  proof (cases "opn @ ''$2'' @ cls")
    case Nil
    then show ?thesis by simp
  next
    case (Cons e t)
    have "getSubstitution ?m (CHR ''$'' # CHR ''1'' # e # t)
          = capture (captures ?m) 1 ''$1'' @ getSubstitution ?m (e # t)"
      by (simp add: isDigit_def digitValue_def)
    then show ?thesis using rest2 Cons by (simp add: capture_def)
  qed
  then show ?thesis
    unfolding highlightLeadingTrailingSpaces_def tr replace_def ex bg(1) by simp
qed

section \<open>Claims about the whitespace highlighter\<close>

text \<open>
  C6. The leading-and-trailing highlighter wraps the trailing whitespace run, and for
  an odd number of leading whitespace characters wraps the last of them. The claim that
  it does nothing else fails on the code: group 1 of the regular expression is inside
  a star, so \<open>$1\<close> is the pair of the last iteration only and the earlier pairs are
  dropped from the line. With one or three leading spaces the line keeps its
  characters; with five it loses two, with seven it loses four.
\<close>

theorem odd_leading_spaces_drop_pairs:
  "highlightLeadingTrailingSpaces '' x'' (bgInverse demoChalk) = ''<inverse> </inverse>x''
   \<and> highlightLeadingTrailingSpaces ''   x'' (bgInverse demoChalk) = ''  <inverse> </inverse>x''
   \<and> highlightLeadingTrailingSpaces ''     x'' (bgInverse demoChalk) = ''  <inverse> </inverse>x''
   \<and> highlightLeadingTrailingSpaces ''       x'' (bgInverse demoChalk) = ''  <inverse> </inverse>x''
   \<and> highlightLeadingTrailingSpaces ''    x  '' (bgInverse demoChalk) = ''    x<inverse>  </inverse>''
   \<and> highlightLeadingTrailingSpaces ''   '' (bgInverse demoChalk) = ''<inverse>   </inverse>''"
  by (simp add: demoChalk_def line_simps)

end
